theory Spec2Isabelle
  imports
    Main
    "HOL-Library.Char_ord"
    "HOL-Library.List_Lexorder"
    "HOL-Library.AList"
    "HOL-Library.Sublist"
begin

section \<open>The RVC model installer: a shallow embedding\<close>

text \<open>
  The program is one Python file, \<^verbatim>\<open>RVC-MODEL-INSTALLER.py\<close>: two functions that
  read and write the persisted model folder, and the class \<^verbatim>\<open>ModelInstaller\<close>, whose
  methods list, import and rename model folders below \<^verbatim>\<open>self.model_path\<close>.  Every
  method is a sequence of \<^verbatim>\<open>pathlib\<close> and \<^verbatim>\<open>shutil\<close> calls, so the embedding has
  three layers: path names, a file system with the calls the program makes, and the
  methods themselves, written branch by branch as in the source.

  Conventions.  A Python \<^verbatim>\<open>str\<close> is a \<^typ>\<open>string\<close>; a name holding characters
  outside ASCII is its UTF-8 bytes, whose bytewise order is the order of the code
  points that Python compares.  A \<^verbatim>\<open>Path\<close> is the list of its components, counted
  from the root of the file system.  The name of a file or a directory holds no
  separator, and a path the program makes from such names is looked up component by
  component as it is; a path made from a text of the user (the row's text and the
  dialog's answer in \<^verbatim>\<open>rename_model\<close>) is parsed as pathlib parses it and its \<^verbatim>\<open>..\<close>
  are resolved as the system resolves them.  There are no links, and the limits of
  the system on the length of a name are not modelled.
  Paths compare as \<^verbatim>\<open>PurePosixPath\<close> does: component by component, each by its
  code points.
\<close>

subsection \<open>Path names\<close>

type_synonym path = "string list"

text \<open>\<^verbatim>\<open>Path.name\<close>: the last component, empty for a path with no component.\<close>

definition path_name :: "path \<Rightarrow> string" where
  "path_name p = (if p = [] then [] else last p)"

text \<open>\<^verbatim>\<open>str.rfind\<close> for one character: the index of its last occurrence.\<close>

fun rfind :: "char \<Rightarrow> string \<Rightarrow> nat option" where
  "rfind c [] = None"
| "rfind c (x # xs) =
     (case rfind c xs of
        Some i \<Rightarrow> Some (Suc i)
      | None \<Rightarrow> if x = c then Some 0 else None)"

text \<open>
  \<^verbatim>\<open>Path.suffix\<close> and \<^verbatim>\<open>Path.stem\<close> as pathlib defines them (up to Python 3.13):
  \<^verbatim>\<open>
    i = name.rfind('.')
    if 0 < i < len(name) - 1: return name[i:]      # stem: name[:i]
    else:                     return ''            # stem: name
  \<close>
\<close>

definition suffix_of :: "path \<Rightarrow> string" where
  "suffix_of p =
     (let name = path_name p in
      case rfind (CHR ''.'') name of
        None \<Rightarrow> []
      | Some i \<Rightarrow> if 0 < i \<and> Suc i < length name then drop i name else [])"

definition stem :: "path \<Rightarrow> string" where
  "stem p =
     (let name = path_name p in
      case rfind (CHR ''.'') name of
        None \<Rightarrow> name
      | Some i \<Rightarrow> if 0 < i \<and> Suc i < length name then take i name else name)"

text \<open>
  The operator \<^verbatim>\<open>/\<close> of pathlib with a single name on the right, as the stem and the
  name of a path are (neither holds a separator): an empty name and the name \<^verbatim>\<open>.\<close> add
  no component.
\<close>

definition pjoin :: "path \<Rightarrow> string \<Rightarrow> path" where
  "pjoin p s = (if s = [] \<or> s = ''.'' then p else p @ [s])"

text \<open>
  The operator \<^verbatim>\<open>/\<close> of pathlib with any text on the right (\<^verbatim>\<open>PurePosixPath\<close>): the text
  is split at \<^verbatim>\<open>/\<close>, its empty parts and its parts \<^verbatim>\<open>.\<close> are dropped, the parts
  \<^verbatim>\<open>..\<close> are kept; a text that starts with \<^verbatim>\<open>/\<close> is an absolute path and replaces the
  path on the left.  \<^verbatim>\<open>split_slash\<close> is \<^verbatim>\<open>str.split('/')\<close>.
\<close>

fun split_slash :: "string \<Rightarrow> string list" where
  "split_slash [] = [[]]"
| "split_slash (c # cs) =
     (if c = CHR ''/'' then [] # split_slash cs
      else case split_slash cs of
             [] \<Rightarrow> [[c]]
           | w # ws \<Rightarrow> (c # w) # ws)"

definition path_parts :: "string \<Rightarrow> path" where
  "path_parts s = filter (\<lambda>x. x \<noteq> [] \<and> x \<noteq> ''.'') (split_slash s)"

definition joinpath :: "path \<Rightarrow> string \<Rightarrow> path" where
  "joinpath p s =
     (case s of
        [] \<Rightarrow> p
      | c # cs \<Rightarrow> if c = CHR ''/'' then path_parts s else p @ path_parts s)"

text \<open>Python's \<^verbatim>\<open>str\<close> of a natural number, as the f-string \<^verbatim>\<open>{counter}\<close> renders it.\<close>

definition digit :: "nat \<Rightarrow> char" where
  "digit d = ''0123456789'' ! d"

fun str_nat :: "nat \<Rightarrow> string" where
  "str_nat n = (if n < 10 then [digit n] else str_nat (n div 10) @ [digit (n mod 10)])"

declare str_nat.simps [simp del]

text \<open>The candidate \<^verbatim>\<open>self.model_path / f"{model_name}_{counter}"\<close>.\<close>

definition numbered :: "path \<Rightarrow> string \<Rightarrow> nat \<Rightarrow> path" where
  "numbered root model_name counter = pjoin root (model_name @ ''_'' @ str_nat counter)"

subsection \<open>The file system\<close>

text \<open>
  A regular file holds its contents (with its metadata: \<^verbatim>\<open>shutil.copy2\<close> copies
  both); a directory holds its children by name.  The list of children stands for the
  finite map \<^term>\<open>map_of\<close> gives, so a name has one child.
\<close>

datatype node = File string | Dir "(string \<times> node) list"

datatype io_error =
    FileNotFoundError
  | FileExistsError
  | NotADirectoryError
  | IsADirectoryError
  | SameFileError
  | InvalidArgument
  | RecursionError
  | ReadError

fun lookup :: "node \<Rightarrow> path \<Rightarrow> node option" where
  "lookup n [] = Some n"
| "lookup (File c) (x # xs) = None"
| "lookup (Dir cs) (x # xs) =
     (case map_of cs x of None \<Rightarrow> None | Some n \<Rightarrow> lookup n xs)"

text \<open>\<^verbatim>\<open>Path.exists\<close>, \<^verbatim>\<open>Path.is_file\<close>, \<^verbatim>\<open>Path.is_dir\<close>: none of them raises.\<close>

definition exists :: "node \<Rightarrow> path \<Rightarrow> bool" where
  "exists fs p = (lookup fs p \<noteq> None)"

definition is_file :: "node \<Rightarrow> path \<Rightarrow> bool" where
  "is_file fs p = (case lookup fs p of Some (File c) \<Rightarrow> True | _ \<Rightarrow> False)"

definition is_dir :: "node \<Rightarrow> path \<Rightarrow> bool" where
  "is_dir fs p = (case lookup fs p of Some (Dir cs) \<Rightarrow> True | _ \<Rightarrow> False)"

text \<open>\<^verbatim>\<open>Path.iterdir\<close>: the children of a directory, each once, as paths.\<close>

definition iterdir :: "node \<Rightarrow> path \<Rightarrow> io_error + path list" where
  "iterdir fs p =
     (case lookup fs p of
        None \<Rightarrow> Inl FileNotFoundError
      | Some (File c) \<Rightarrow> Inl NotADirectoryError
      | Some (Dir cs) \<Rightarrow> Inr (map (\<lambda>n. p @ [n]) (remdups (map fst cs))))"

text \<open>
  Writing a node at a path whose parent is an existing directory; \<open>None\<close> when the
  parent is missing or is a regular file.
\<close>

fun store :: "node \<Rightarrow> path \<Rightarrow> node \<Rightarrow> node option" where
  "store n [] v = Some v"
| "store (File c) (x # xs) v = None"
| "store (Dir cs) (x # xs) v =
     (if xs = [] then Some (Dir (AList.update x v cs))
      else case map_of cs x of
             None \<Rightarrow> None
           | Some n \<Rightarrow>
               (case store n xs v of
                  None \<Rightarrow> None
                | Some n' \<Rightarrow> Some (Dir (AList.update x n' cs))))"

text \<open>Removing the node at a path (with everything below it).\<close>

fun remove :: "node \<Rightarrow> path \<Rightarrow> node" where
  "remove n [] = n"
| "remove (File c) (x # xs) = File c"
| "remove (Dir cs) (x # xs) =
     (if xs = [] then Dir (AList.delete x cs)
      else case map_of cs x of
             None \<Rightarrow> Dir cs
           | Some n \<Rightarrow> Dir (AList.update x (remove n xs) cs))"

text \<open>
  Creating every missing directory along a path (\<^verbatim>\<open>os.makedirs\<close> with
  \<^verbatim>\<open>exist_ok\<close>); \<open>None\<close> when a component on the way is a regular file.
\<close>

fun mkdirs :: "node \<Rightarrow> path \<Rightarrow> node option" where
  "mkdirs (File c) p = None"
| "mkdirs (Dir cs) [] = Some (Dir cs)"
| "mkdirs (Dir cs) (x # xs) =
     (case mkdirs (case map_of cs x of None \<Rightarrow> Dir [] | Some n \<Rightarrow> n) xs of
        None \<Rightarrow> None
      | Some n' \<Rightarrow> Some (Dir (AList.update x n' cs)))"

text \<open>
  \<^verbatim>\<open>Path.mkdir(parents=True)\<close>: the path itself must not exist; its missing parents
  are created with it.
\<close>

definition mkdir_parents :: "node \<Rightarrow> path \<Rightarrow> io_error + node" where
  "mkdir_parents fs p =
     (if exists fs p then Inl FileExistsError
      else case mkdirs fs p of
             None \<Rightarrow> Inl NotADirectoryError
           | Some fs' \<Rightarrow> Inr fs')"

text \<open>
  \<^verbatim>\<open>shutil.copy2(src, dst)\<close>: the source is a regular file; a destination that is a
  directory stands for the file of the source's name in it; the destination's parent
  exists.
\<close>

definition copy2 :: "node \<Rightarrow> path \<Rightarrow> path \<Rightarrow> io_error + node" where
  "copy2 fs src dst =
     (case lookup fs src of
        None \<Rightarrow> Inl FileNotFoundError
      | Some (Dir cs) \<Rightarrow> Inl IsADirectoryError
      | Some (File c) \<Rightarrow>
          (let dst' = (if is_dir fs dst then pjoin dst (path_name src) else dst) in
           if dst' = src then Inl SameFileError
           else if is_dir fs dst' then Inl IsADirectoryError
           else if dst' = [] \<or> \<not> is_dir fs (butlast dst') then Inl FileNotFoundError
           else case store fs dst' (File c) of
                  None \<Rightarrow> Inl FileNotFoundError
                | Some fs' \<Rightarrow> Inr fs'))"

text \<open>
  \<^verbatim>\<open>shutil.copytree(src, dst)\<close>: the source is a directory, whose entries are listed
  first; the destination must not exist and is created with its missing parents; the
  entries are then copied below it, each subdirectory being listed when the copy reaches
  it.  So a destination that is a child of the source gets the entries the source had,
  and a destination deeper inside the source is met again by the copy, which then
  copies its own output until the system stops it: the call raises, and what it has
  written below the destination by then is not modelled.  The result is the file system
  the call leaves and the exception, if any.
\<close>

definition copytree :: "node \<Rightarrow> path \<Rightarrow> path \<Rightarrow> node \<times> io_error option" where
  "copytree fs src dst =
     (case lookup fs src of
        None \<Rightarrow> (fs, Some FileNotFoundError)
      | Some (File c) \<Rightarrow> (fs, Some NotADirectoryError)
      | Some (Dir cs) \<Rightarrow>
          (case mkdir_parents fs dst of
             Inl e \<Rightarrow> (fs, Some e)
           | Inr fs1 \<Rightarrow>
               if strict_prefix src (butlast dst) then (fs1, Some RecursionError)
               else (case store fs1 dst (Dir cs) of
                       None \<Rightarrow> (fs1, Some FileNotFoundError)
                     | Some fs2 \<Rightarrow> (fs2, None))))"

text \<open>
  How the system finds the entry a path with \<^verbatim>\<open>..\<close> names: it walks the components from
  the root of the file system, \<open>cur\<close> being the directory reached; \<^verbatim>\<open>..\<close> steps to the
  parent (the root is its own parent); a component that others follow must be a
  directory (a missing one gives \<^verbatim>\<open>ENOENT\<close>, a regular file \<^verbatim>\<open>ENOTDIR\<close>); the last
  component need not exist.  The result is the path of the entry without \<^verbatim>\<open>..\<close>.
\<close>

fun walk :: "node \<Rightarrow> path \<Rightarrow> path \<Rightarrow> io_error + path" where
  "walk fs cur [] = Inr cur"
| "walk fs cur (c # cs) =
     (if c = ''..'' then walk fs (butlast cur) cs
      else if cs = [] then Inr (cur @ [c])
      else case lookup fs (cur @ [c]) of
             None \<Rightarrow> Inl FileNotFoundError
           | Some (File x) \<Rightarrow> Inl NotADirectoryError
           | Some (Dir xs) \<Rightarrow> walk fs (cur @ [c]) cs)"

definition resolve :: "node \<Rightarrow> path \<Rightarrow> io_error + path" where
  "resolve fs p = walk fs [] p"

text \<open>\<^verbatim>\<open>Path.exists\<close> for such a path: false when the walk fails.\<close>

definition path_exists :: "node \<Rightarrow> path \<Rightarrow> bool" where
  "path_exists fs p = (case resolve fs p of Inl e \<Rightarrow> False | Inr q \<Rightarrow> exists fs q)"

text \<open>
  \<^verbatim>\<open>Path.rename(target)\<close>, that is \<^verbatim>\<open>os.rename\<close>, onto a target that does not exist (the
  program checks it before): the system finds the parent directory of the source, then
  that of the target, then the source itself in its directory; a directory does not move
  below itself.
\<close>

definition rename :: "node \<Rightarrow> path \<Rightarrow> path \<Rightarrow> io_error + node" where
  "rename fs src dst =
     (case resolve fs src of
        Inl e \<Rightarrow> Inl e
      | Inr source \<Rightarrow>
          (case resolve fs dst of
             Inl e \<Rightarrow> Inl e
           | Inr target \<Rightarrow>
               (case lookup fs source of
                  None \<Rightarrow> Inl FileNotFoundError
                | Some n \<Rightarrow>
                    if exists fs target then Inl FileExistsError
                    else if prefix source target then Inl InvalidArgument
                    else case store (remove fs source) target n of
                           None \<Rightarrow> Inl FileNotFoundError
                         | Some fs' \<Rightarrow> Inr fs')))"

subsection \<open>The persisted model folder\<close>







subsection \<open>The installer: its state and what it shows\<close>

text \<open>
  The state a method touches: the file system, \<^verbatim>\<open>self.model_path\<close>, and the rows of
  \<^verbatim>\<open>self.model_list\<close>, each a text with its tooltip (if one was set).
\<close>

type_synonym item = "string \<times> string option"

record installer =
  disk :: node
  model_path :: path
  model_list :: "item list"

text \<open>
  A message box: \<^verbatim>\<open>QMessageBox.warning\<close> with its title, \<^verbatim>\<open>QMessageBox.critical\<close>
  with its title and the exception it reports.
\<close>

datatype notice = Warning string | Critical string io_error

text \<open>
  The marks \<^verbatim>\<open>load_models\<close> appends to a folder's name: a space and U+2754 for an
  empty folder, a space and U+26A0 U+FE0F for an incomplete one.
\<close>

definition EMPTY_MARK :: string where
  "EMPTY_MARK = [CHR 0x20, CHR 0xE2, CHR 0x9D, CHR 0x94]"

definition WARNING_MARK :: string where
  "WARNING_MARK = [CHR 0x20, CHR 0xE2, CHR 0x9A, CHR 0xA0, CHR 0xEF, CHR 0xB8, CHR 0x8F]"

definition EMPTY_TIP :: string where
  "EMPTY_TIP = ''Folder is empty.''"

text \<open>\<^verbatim>\<open>', '.join(missing)\<close>.\<close>

fun join_comma :: "string list \<Rightarrow> string" where
  "join_comma [] = []"
| "join_comma [x] = x"
| "join_comma (x # y # ys) = x @ '', '' @ join_comma (y # ys)"

definition missing_tip :: "string list \<Rightarrow> string" where
  "missing_tip missing =
     ''Missing '' @ join_comma missing @ '' file(s). Model won'' @ [CHR 0x27] @ ''t work.''"

text \<open>
  The body of the loop of \<^verbatim>\<open>load_models\<close> for one folder:
  \<^verbatim>\<open>
    has_pth = any(f.suffix == ".pth" for f in folder.iterdir() if f.is_file())
    has_index = any(f.suffix == ".index" for f in folder.iterdir() if f.is_file())
    has_any = any(True for _ in folder.iterdir())
    display_name = folder.name
    tooltip = None
    if not has_any:
        display_name += " ?"; tooltip = "Folder is empty."
    elif not has_pth or not has_index:
        display_name += " !"
        missing = []
        if not has_pth: missing.append(".pth")
        if not has_index: missing.append(".index")
        tooltip = f"Missing {', '.join(missing)} file(s). Model won't work."
  \<close>
  (the two marks are written \<^verbatim>\<open>?\<close> and \<^verbatim>\<open>!\<close> here).
\<close>

definition folder_item :: "node \<Rightarrow> path \<Rightarrow> io_error + item" where
  "folder_item fs folder =
     (case iterdir fs folder of
        Inl e \<Rightarrow> Inl e
      | Inr children \<Rightarrow>
          (let has_pth = list_ex (\<lambda>f. suffix_of f = ''.pth'') (filter (is_file fs) children);
               has_index = list_ex (\<lambda>f. suffix_of f = ''.index'') (filter (is_file fs) children);
               has_any = (children \<noteq> []);
               display_name = path_name folder
           in if \<not> has_any then Inr (display_name @ EMPTY_MARK, Some EMPTY_TIP)
              else if \<not> has_pth \<or> \<not> has_index then
                Inr (display_name @ WARNING_MARK,
                     Some (missing_tip ((if \<not> has_pth then [''.pth''] else []) @
                                        (if \<not> has_index then [''.index''] else []))))
              else Inr (display_name, None)))"

text \<open>
  The loop \<^verbatim>\<open>for folder in sorted(self.model_path.iterdir())\<close>: a directory adds its
  row at the end of the list, anything else is passed over.  An exception leaves the
  rows added so far.
\<close>

fun add_items :: "installer \<Rightarrow> path list \<Rightarrow> installer \<times> io_error option" where
  "add_items s [] = (s, None)"
| "add_items s (folder # rest) =
     (if is_dir (disk s) folder then
        (case folder_item (disk s) folder of
           Inl e \<Rightarrow> (s, Some e)
         | Inr it \<Rightarrow> add_items (s\<lparr>model_list := model_list s @ [it]\<rparr>) rest)
      else add_items s rest)"

text \<open>
  \<^verbatim>\<open>
  def load_models(self):
      self.model_list.clear()
      if not self.model_path.exists():
          self.model_path.mkdir(parents=True)
      for folder in sorted(self.model_path.iterdir()):
          if folder.is_dir(): ...
  \<close>
  Nothing here is inside a \<^verbatim>\<open>try\<close>: an exception of \<^verbatim>\<open>mkdir\<close> or \<^verbatim>\<open>iterdir\<close>
  leaves the method, with the state as it is then.  The result is that state and the
  exception, if any.
\<close>

definition load_models :: "installer \<Rightarrow> installer \<times> io_error option" where
  "load_models s =
     (let s1 = s\<lparr>model_list := []\<rparr> in
      case (if \<not> exists (disk s1) (model_path s1)
            then mkdir_parents (disk s1) (model_path s1) else Inr (disk s1)) of
        Inl e \<Rightarrow> (s1, Some e)
      | Inr fs \<Rightarrow>
          (let s2 = s1\<lparr>disk := fs\<rparr> in
           case iterdir (disk s2) (model_path s2) of
             Inl e \<Rightarrow> (s2, Some e)
           | Inr folders \<Rightarrow> add_items s2 (sort folders)))"

text \<open>
  The status of a row, read off its tooltip: none for a complete folder,
  \<^verbatim>\<open>Folder is empty.\<close> for an empty one, the list of what is missing otherwise.
\<close>

datatype status = Complete | Missing_files | Empty

definition item_status :: "item \<Rightarrow> status" where
  "item_status it =
     (case snd it of
        None \<Rightarrow> Complete
      | Some tip \<Rightarrow> if tip = EMPTY_TIP then Empty else Missing_files)"

subsection \<open>Import: the loop that looks for a free name\<close>

text \<open>
  Each of the three import branches of \<^verbatim>\<open>handle_dropped_item\<close> runs the same loop,
  \<^verbatim>\<open>
    dest = self.model_path / model_name
    counter = 1
    while dest.exists():
        dest = self.model_path / f"{model_name}_{counter}"
        counter += 1
  \<close>
  whose state is \<open>dest\<close> and \<open>counter\<close>.  It ends because a directory has finitely many
  children and the names \<^verbatim>\<open>{model_name}_{counter}\<close> differ from one counter to the next;
  the lemmas below are what the termination proof needs.
\<close>

lemma lookup_append:
  "lookup fs (p @ q) = (case lookup fs p of None \<Rightarrow> None | Some n \<Rightarrow> lookup n q)"
proof (induction p arbitrary: fs)
  case Nil
  show ?case by simp
next
  case (Cons x p)
  show ?case
  proof (cases fs)
    case (File c)
    then show ?thesis by simp
  next
    case (Dir cs)
    then show ?thesis using Cons.IH by (simp split: option.splits)
  qed
qed

lemma digit_inj: "a < 10 \<Longrightarrow> b < 10 \<Longrightarrow> digit a = digit b \<Longrightarrow> a = b"
proof -
  have cases: "n < 10 \<Longrightarrow> n \<in> {0, 1, 2, 3, 4, 5, 6, 7, 8, 9}" for n :: nat
    by auto
  assume "a < 10" "b < 10" "digit a = digit b"
  with cases [of a] cases [of b] show "a = b"
    by (auto simp add: digit_def)
qed

lemma str_nat_length: "length (str_nat n) = 1 \<longleftrightarrow> n < 10"
proof (cases "n < 10")
  case True
  then show ?thesis by (simp add: str_nat.simps [of n])
next
  case False
  have "str_nat (n div 10) \<noteq> []"
    by (subst str_nat.simps) simp
  with False show ?thesis by (simp add: str_nat.simps [of n])
qed

lemma str_nat_inj: "str_nat a = str_nat b \<Longrightarrow> a = b"
proof (induction a arbitrary: b rule: str_nat.induct)
  case (1 a)
  show ?case
  proof (cases "a < 10")
    case small: True
    with "1.prems" str_nat_length [of a] str_nat_length [of b] have b: "b < 10" by simp
    with small "1.prems" have "digit a = digit b"
      by (simp add: str_nat.simps [of a] str_nat.simps [of b])
    with small b show ?thesis by (rule digit_inj)
  next
    case big: False
    with "1.prems" str_nat_length [of a] str_nat_length [of b] have b: "\<not> b < 10" by simp
    with big "1.prems" have eq: "str_nat (a div 10) @ [digit (a mod 10)] = str_nat (b div 10) @ [digit (b mod 10)]"
      by (simp add: str_nat.simps [of a] str_nat.simps [of b])
    then have "str_nat (a div 10) = str_nat (b div 10)" and d: "digit (a mod 10) = digit (b mod 10)"
      by simp_all
    with "1.IH" big have q: "a div 10 = b div 10" by blast
    from d have r: "a mod 10 = b mod 10" by (intro digit_inj) simp_all
    from q r show ?thesis by (metis div_mult_mod_eq)
  qed
qed

lemma numbered_child: "numbered root model_name k = root @ [model_name @ ''_'' @ str_nat k]"
proof -
  have "model_name @ ''_'' @ str_nat k \<noteq> ''.''"
    by (cases model_name) (auto simp add: append_eq_Cons_conv)
  then show ?thesis by (simp add: numbered_def pjoin_def)
qed

lemma numbered_inj: "numbered root model_name j = numbered root model_name k \<Longrightarrow> j = k"
  by (simp add: numbered_child str_nat_inj)

lemma exists_child:
  assumes "exists fs (p @ [n])"
  shows "\<exists>cs. lookup fs p = Some (Dir cs) \<and> n \<in> fst ` set cs"
proof -
  from assms obtain m where m: "lookup fs p = Some m" and n: "lookup m [n] \<noteq> None"
    by (auto simp add: exists_def lookup_append split: option.splits)
  from n obtain cs where cs: "m = Dir cs" and "map_of cs n \<noteq> None"
    by (cases m) (auto split: option.splits)
  then have "n \<in> fst ` set cs" by (simp add: map_of_eq_None_iff)
  with m cs show ?thesis by simp
qed

lemma finite_existing_children: "finite {n. exists fs (p @ [n])}"
proof (cases "\<exists>cs. lookup fs p = Some (Dir cs)")
  case True
  then obtain cs where cs: "lookup fs p = Some (Dir cs)" by blast
  have "{n. exists fs (p @ [n])} \<subseteq> fst ` set cs"
    using exists_child [of fs p] cs by auto
  then show ?thesis by (rule finite_subset) simp
next
  case False
  then have "{n. exists fs (p @ [n])} = {}"
    using exists_child [of fs p] by auto
  then show ?thesis by simp
qed

lemma finite_taken: "finite {j. exists fs (numbered root model_name j)}"
proof -
  let ?f = "\<lambda>j. model_name @ ''_'' @ str_nat j"
  have "inj ?f" by (rule injI) (simp add: str_nat_inj)
  then have "finite (?f -` {n. exists fs (root @ [n])})"
    using finite_existing_children by (rule finite_vimageI [rotated])
  moreover have "{j. exists fs (numbered root model_name j)} = ?f -` {n. exists fs (root @ [n])}"
    by (auto simp add: numbered_child)
  ultimately show ?thesis by simp
qed

text \<open>The loop itself: the state \<open>dest\<close>, \<open>counter\<close> of one round, and the path it ends with.\<close>

function next_free :: "node \<Rightarrow> path \<Rightarrow> string \<Rightarrow> path \<Rightarrow> nat \<Rightarrow> path" where
  "next_free fs root model_name dest counter =
     (if exists fs dest
      then next_free fs root model_name (numbered root model_name counter) (Suc counter)
      else dest)"
  by pat_completeness auto
termination
proof (relation "measure (\<lambda>(fs, root, model_name, dest, counter).
          2 * card {j. counter \<le> j \<and> exists fs (numbered root model_name j)}
          + (if exists fs dest then 1 else 0))")
  show "wf (measure (\<lambda>(fs, root, model_name, dest, counter).
          2 * card {j. counter \<le> j \<and> exists fs (numbered root model_name j)}
          + (if exists fs dest then 1 else 0)))"
    by simp
next
  fix fs :: node and root :: path and model_name :: string and dest :: path and counter :: nat
  assume dest: "exists fs dest"
  let ?T = "\<lambda>c. {j. c \<le> j \<and> exists fs (numbered root model_name j)}"
  have fin: "finite (?T c)" for c
    using finite_taken [of fs root model_name] by (rule rev_finite_subset) auto
  show "((fs, root, model_name, numbered root model_name counter, Suc counter),
         (fs, root, model_name, dest, counter))
        \<in> measure (\<lambda>(fs, root, model_name, dest, counter).
          2 * card {j. counter \<le> j \<and> exists fs (numbered root model_name j)}
          + (if exists fs dest then 1 else 0))"
  proof (cases "exists fs (numbered root model_name counter)")
    case True
    then have "?T counter = insert counter (?T (Suc counter))" by (auto simp add: le_Suc_eq)
    moreover have "counter \<notin> ?T (Suc counter)" by simp
    ultimately have "card (?T counter) = Suc (card (?T (Suc counter)))"
      using fin [of "Suc counter"] by simp
    with True dest show ?thesis by simp
  next
    case False
    then have "?T counter = ?T (Suc counter)"
      by (auto simp add: Suc_le_eq le_less)
    with False dest show ?thesis by simp
  qed
qed

declare next_free.simps [simp del]

subsection \<open>Import\<close>

text \<open>
  \<^verbatim>\<open>
  def handle_dropped_item(self, path):
      if isinstance(path, list):
          files = [Path(p) for p in path]
          pth_files = [f for f in files if f.suffix == ".pth"]
          index_files = [f for f in files if f.suffix == ".index"]
          if len(pth_files) == 1 and len(index_files) == 1:
              ... (the pair, below) ...
              return
          for f in files:
              self.handle_dropped_item(str(f))
          return
      ... (one path, below) ...
  \<close>
  What is dropped is one path or a list of paths.
\<close>

datatype dropped = One path | Many "path list"

text \<open>
  One path:
  \<^verbatim>\<open>
      source = Path(path)
      if not source.exists():
          QMessageBox.warning(self, "Error", ...); return
      if source.is_file() and source.suffix == ".pth":
          model_name = source.stem
          ... dest_folder by the loop ...
          try:
              dest_folder.mkdir(parents=True)
              shutil.copy2(source, dest_folder / source.name)
          except Exception as e:
              QMessageBox.critical(self, "Copy Error", ...)
          return
      model_name = source.stem if source.is_file() else source.name
      ... dest by the loop ...
      try:
          if source.is_file(): shutil.copy2(source, dest)
          else:                shutil.copytree(source, dest)
      except Exception as e:
          QMessageBox.critical(self, "Copy Error", ...)
  \<close>
  An exception inside \<^verbatim>\<open>try\<close> keeps what the calls before it (and the call that
  raised) have done.
\<close>

definition handle_dropped_path :: "installer \<Rightarrow> path \<Rightarrow> installer \<times> notice list" where
  "handle_dropped_path s source =
     (if \<not> exists (disk s) source then (s, [Warning ''Error''])
      else if is_file (disk s) source \<and> suffix_of source = ''.pth'' then
        (let model_name = stem source;
             dest_folder = next_free (disk s) (model_path s) model_name
                             (pjoin (model_path s) model_name) 1
         in case mkdir_parents (disk s) dest_folder of
              Inl e \<Rightarrow> (s, [Critical ''Copy Error'' e])
            | Inr fs1 \<Rightarrow>
                (case copy2 fs1 source (pjoin dest_folder (path_name source)) of
                   Inl e \<Rightarrow> (s\<lparr>disk := fs1\<rparr>, [Critical ''Copy Error'' e])
                 | Inr fs2 \<Rightarrow> (s\<lparr>disk := fs2\<rparr>, [])))
      else
        (let model_name = (if is_file (disk s) source then stem source else path_name source);
             dest = next_free (disk s) (model_path s) model_name
                      (pjoin (model_path s) model_name) 1
         in if is_file (disk s) source then
              (case copy2 (disk s) source dest of
                 Inl e \<Rightarrow> (s, [Critical ''Copy Error'' e])
               | Inr fs1 \<Rightarrow> (s\<lparr>disk := fs1\<rparr>, []))
            else
              (case copytree (disk s) source dest of
                 (fs1, Some e) \<Rightarrow> (s\<lparr>disk := fs1\<rparr>, [Critical ''Copy Error'' e])
               | (fs1, None) \<Rightarrow> (s\<lparr>disk := fs1\<rparr>, []))))"

text \<open>
  The pair:
  \<^verbatim>\<open>
      pth_file = pth_files[0]
      index_file = index_files[0]
      model_name = pth_file.stem
      ... dest_folder by the loop ...
      try:
          dest_folder.mkdir(parents=True)
          shutil.copy2(pth_file, dest_folder / pth_file.name)
          shutil.copy2(index_file, dest_folder / index_file.name)
      except Exception as e:
          QMessageBox.critical(self, "Copy Error", ...)
      return
  \<close>
\<close>

definition handle_dropped_pair :: "installer \<Rightarrow> path \<Rightarrow> path \<Rightarrow> installer \<times> notice list" where
  "handle_dropped_pair s pth_file index_file =
     (let model_name = stem pth_file;
          dest_folder = next_free (disk s) (model_path s) model_name
                          (pjoin (model_path s) model_name) 1
      in case mkdir_parents (disk s) dest_folder of
           Inl e \<Rightarrow> (s, [Critical ''Copy Error'' e])
         | Inr fs1 \<Rightarrow>
             (case copy2 fs1 pth_file (pjoin dest_folder (path_name pth_file)) of
                Inl e \<Rightarrow> (s\<lparr>disk := fs1\<rparr>, [Critical ''Copy Error'' e])
              | Inr fs2 \<Rightarrow>
                  (case copy2 fs2 index_file (pjoin dest_folder (path_name index_file)) of
                     Inl e \<Rightarrow> (s\<lparr>disk := fs2\<rparr>, [Critical ''Copy Error'' e])
                   | Inr fs3 \<Rightarrow> (s\<lparr>disk := fs3\<rparr>, []))))"

text \<open>The loop \<^verbatim>\<open>for f in files: self.handle_dropped_item(str(f))\<close>.\<close>

fun handle_each :: "installer \<Rightarrow> path list \<Rightarrow> installer \<times> notice list" where
  "handle_each s [] = (s, [])"
| "handle_each s (f # files) =
     (case handle_dropped_path s f of
        (s1, shown1) \<Rightarrow>
          (case handle_each s1 files of
             (s2, shown2) \<Rightarrow> (s2, shown1 @ shown2)))"

definition handle_dropped_item :: "installer \<Rightarrow> dropped \<Rightarrow> installer \<times> notice list" where
  "handle_dropped_item s path =
     (case path of
        Many files \<Rightarrow>
          (let pth_files = filter (\<lambda>f. suffix_of f = ''.pth'') files;
               index_files = filter (\<lambda>f. suffix_of f = ''.index'') files
           in if length pth_files = 1 \<and> length index_files = 1
              then handle_dropped_pair s (hd pth_files) (hd index_files)
              else handle_each s files)
      | One source \<Rightarrow> handle_dropped_path s source)"

subsection \<open>Rename\<close>

text \<open>
  \<^verbatim>\<open>self.model_list.currentItem()\<close>: the selected row, if there is one.  The selection
  is the index the user chose.
\<close>

definition current_item :: "installer \<Rightarrow> nat option \<Rightarrow> item option" where
  "current_item s current =
     (case current of
        None \<Rightarrow> None
      | Some i \<Rightarrow> if i < length (model_list s) then Some (model_list s ! i) else None)"

text \<open>
  \<^verbatim>\<open>
  def rename_model(self):
      selected = self.model_list.currentItem()
      if not selected:
          QMessageBox.warning(self, "No Selection", ...); return
      model_name = selected.text()
      model_path = self.model_path / model_name
      new_name, ok = QInputDialog.getText(..., text=model_name)
      if ok and new_name and new_name != model_name:
          new_path = self.model_path / new_name
          if new_path.exists():
              QMessageBox.warning(self, "Rename Error", ...); return
          try:
              model_path.rename(new_path)
              self.load_models()
          except Exception as e:
              QMessageBox.critical(self, "Rename Error", ...)
  \<close>
  The dialog's answer (the text entered and whether it was accepted) is an input.  Both
  operands of \<^verbatim>\<open>/\<close> are texts here: the row's text and the text entered.
\<close>

definition rename_model ::
  "installer \<Rightarrow> nat option \<Rightarrow> string \<times> bool \<Rightarrow> installer \<times> notice list" where
  "rename_model s current answer =
     (case current_item s current of
        None \<Rightarrow> (s, [Warning ''No Selection''])
      | Some selected \<Rightarrow>
          (let model_name = fst selected;
               folder = joinpath (model_path s) model_name;
               new_name = fst answer;
               ok = snd answer
           in if ok \<and> new_name \<noteq> [] \<and> new_name \<noteq> model_name then
                (let new_path = joinpath (model_path s) new_name in
                 if path_exists (disk s) new_path then (s, [Warning ''Rename Error''])
                 else case rename (disk s) folder new_path of
                        Inl e \<Rightarrow> (s, [Critical ''Rename Error'' e])
                      | Inr fs1 \<Rightarrow>
                          (case load_models (s\<lparr>disk := fs1\<rparr>) of
                             (s1, None) \<Rightarrow> (s1, [])
                           | (s1, Some e) \<Rightarrow> (s1, [Critical ''Rename Error'' e])))
              else (s, [])))"

subsection \<open>What the listing is to show\<close>

text \<open>
  The property of the listing in its own words, to compare \<^verbatim>\<open>load_models\<close> with: the
  names of the children of a directory; whether a folder has, among its immediate
  children, a regular file of a given extension; the status of a folder (empty with no
  child at all, else complete with a weights file and an index file, else missing
  files); the subdirectories of the model folder in the order of their names; and the
  mark each status adds to the name shown.
\<close>

definition child_names :: "node \<Rightarrow> path \<Rightarrow> string set" where
  "child_names fs p = (case lookup fs p of Some (Dir cs) \<Rightarrow> fst ` set cs | _ \<Rightarrow> {})"

definition has_file_with :: "node \<Rightarrow> path \<Rightarrow> string \<Rightarrow> bool" where
  "has_file_with fs folder ext =
     (\<exists>n \<in> child_names fs folder. is_file fs (folder @ [n]) \<and> suffix_of [n] = ext)"

definition folder_status :: "node \<Rightarrow> path \<Rightarrow> status" where
  "folder_status fs folder =
     (if child_names fs folder = {} then Empty
      else if has_file_with fs folder ''.pth'' \<and> has_file_with fs folder ''.index'' then Complete
      else Missing_files)"

definition subdir_names :: "node \<Rightarrow> path \<Rightarrow> string list" where
  "subdir_names fs root =
     sorted_list_of_set {n \<in> child_names fs root. is_dir fs (root @ [n])}"

fun mark :: "status \<Rightarrow> string" where
  "mark Complete = []"
| "mark Missing_files = WARNING_MARK"
| "mark Empty = EMPTY_MARK"


subsection \<open>The collision policy\<close>

text \<open>
  The names an import tries, in the policy's own words: the computed name first
  (candidate 0), then that name with \<^verbatim>\<open>_1\<close>, \<^verbatim>\<open>_2\<close>, ... appended.  The destination
  is the first candidate that does not exist.
\<close>

definition candidate :: "path \<Rightarrow> string \<Rightarrow> nat \<Rightarrow> path" where
  "candidate root model_name k =
     (if k = 0 then pjoin root model_name else numbered root model_name k)"

subsection \<open>File systems and installers to run the methods on\<close>

definition example_disk :: node where
  "example_disk =
     Dir [(''models'',
           Dir [(''b'', Dir []),
                (''a'', Dir [(''a.pth'', File ''weights''), (''a.index'', File ''index'')]),
                (''c'', Dir [(''c.pth'', File ''weights''), (''sub'', Dir [(''c.index'', File [])])]),
                (''notes.txt'', File ''text'')])]"

definition example_installer :: installer where
  "example_installer = \<lparr>disk = example_disk, model_path = [''models''], model_list = [(''stale'', None)]\<rparr>"

definition dropped_files :: "string \<times> node" where
  "dropped_files =
     (''src'', Dir [(''voiceA.pth'', File ''weights''),
                    (''voiceA.index'', File ''index''),
                    (''extra.txt'', File ''text'')])"

definition fresh_installer :: installer where
  "fresh_installer =
     \<lparr>disk = Dir [dropped_files, (''models'', Dir [])], model_path = [''models''], model_list = []\<rparr>"

definition used_installer :: installer where
  "used_installer =
     \<lparr>disk = Dir [dropped_files, (''models'', Dir [(''voiceA'', Dir [(''voiceA.pth'', File ''old'')])])],
      model_path = [''models''], model_list = []\<rparr>"

definition marked_installer :: installer where
  "marked_installer =
     \<lparr>disk = Dir [(''models'', Dir [(''foo'', Dir [])])], model_path = [''models''], model_list = []\<rparr>"

definition shadowed_installer :: installer where
  "shadowed_installer =
     \<lparr>disk = Dir [(''models'', Dir [(''foo'', Dir []),
                                     (''foo'' @ EMPTY_MARK, Dir [(''kept.txt'', File ''text'')])])],
      model_path = [''models''], model_list = []\<rparr>"

section \<open>Properties\<close>

subsection \<open>Reading the persisted model folder\<close>




subsection \<open>The file system: what a write changes and what it leaves\<close>

lemma map_of_update: "map_of (AList.update k v al) = (map_of al)(k \<mapsto> v)"
  by (rule update_conv')

lemma lookup_Cons_Dir:
  "lookup (Dir (AList.update x m cs)) (y # q) = (if y = x then lookup m q else lookup (Dir cs) (y # q))"
  by (simp add: map_of_update)

lemma mkdirs_is_Dir: "mkdirs n p = Some n' \<Longrightarrow> \<exists>cs. n' = Dir cs"
  by (induction n p rule: mkdirs.induct) (auto split: option.splits)




lemma mkdirs_no_file_on_path:
  "mkdirs n p = Some n' \<Longrightarrow> prefix q p \<Longrightarrow> \<not> is_file n q"
proof (induction n p arbitrary: n' q rule: mkdirs.induct)
  case (1 c p)
  then show ?case by simp
next
  case (2 cs)
  then show ?case by (auto simp add: is_file_def)
next
  case (3 cs x xs)
  let ?c = "case map_of cs x of None \<Rightarrow> Dir [] | Some n \<Rightarrow> n"
  from "3.prems" obtain m' where m': "mkdirs ?c xs = Some m'"
    by (auto split: option.splits)
  show ?case
  proof (cases q)
    case Nil
    then show ?thesis by (simp add: is_file_def)
  next
    case (Cons y q')
    with "3.prems" have y: "y = x" and q': "prefix q' xs" by simp_all
    from "3.IH" [OF m' q'] have "\<not> is_file ?c q'" .
    then show ?thesis using Cons y by (auto simp add: is_file_def split: option.splits)
  qed
qed

lemma exists_prefix: "exists fs (p @ r) \<Longrightarrow> exists fs p"
  by (auto simp add: exists_def lookup_append split: option.splits)

lemma store_lookup_below:
  "store n p v = Some n' \<Longrightarrow> lookup n' (p @ q) = lookup v q"
proof (induction n p v arbitrary: n' rule: store.induct)
  case (1 n v)
  then show ?case by simp
next
  case (2 c x xs v)
  then show ?case by simp
next
  case (3 cs x xs v)
  show ?case
  proof (cases "xs = []")
    case True
    with "3.prems" show ?thesis by (auto simp add: map_of_update)
  next
    case False
    with "3.prems" obtain m m' where m: "map_of cs x = Some m" and m': "store m xs v = Some m'"
      and n': "n' = Dir (AList.update x m' cs)"
      by (auto split: option.splits)
    from "3.IH" [OF False m m'] n' show ?thesis by (simp add: map_of_update)
  qed
qed

lemma store_lookup_other:
  "store n p v = Some n' \<Longrightarrow> \<not> prefix p q \<Longrightarrow> \<not> prefix q p \<Longrightarrow> lookup n' q = lookup n q"
proof (induction n p v arbitrary: n' q rule: store.induct)
  case (1 n v)
  then show ?case by simp
next
  case (2 c x xs v)
  then show ?case by simp
next
  case (3 cs x xs v)
  from "3.prems" obtain y q' where q: "q = y # q'" by (cases q) auto
  show ?case
  proof (cases "y = x")
    case False
    with "3.prems" q show ?thesis by (auto simp add: map_of_update split: option.splits if_splits)
  next
    case True
    with "3.prems" q have np: "\<not> prefix xs q'" and nq: "\<not> prefix q' xs" by simp_all
    then have ne: "xs \<noteq> []" by auto
    with "3.prems" obtain m m' where m: "map_of cs x = Some m" and m': "store m xs v = Some m'"
      and n': "n' = Dir (AList.update x m' cs)"
      by (auto split: option.splits)
    from "3.IH" [OF ne m m' np nq] n' q True m show ?thesis by (simp add: map_of_update)
  qed
qed

lemma store_prefix_is_dir:
  "store n p v = Some n' \<Longrightarrow> strict_prefix q p \<Longrightarrow> is_dir n q \<and> is_dir n' q"
proof (induction n p v arbitrary: n' q rule: store.induct)
  case (1 n v)
  then show ?case by simp
next
  case (2 c x xs v)
  then show ?case by simp
next
  case (3 cs x xs v)
  show ?case
  proof (cases q)
    case Nil
    with "3.prems" show ?thesis by (auto simp add: is_dir_def split: option.splits if_splits)
  next
    case (Cons y q')
    with "3.prems" have y: "y = x" and q': "strict_prefix q' xs" by (simp_all add: strict_prefix_def)
    then have ne: "xs \<noteq> []" by auto
    with "3.prems" obtain m m' where m: "map_of cs x = Some m" and m': "store m xs v = Some m'"
      and n': "n' = Dir (AList.update x m' cs)"
      by (auto split: option.splits)
    from "3.IH" [OF ne m m' q'] n' Cons y m show ?thesis
      by (simp add: is_dir_def map_of_update)
  qed
qed

lemma store_succeeds:
  "is_dir n p \<Longrightarrow> \<exists>n'. store n (p @ [x]) v = Some n'"
proof (induction p arbitrary: n)
  case Nil
  then show ?case by (cases n) (simp_all add: is_dir_def)
next
  case (Cons y p)
  from Cons.prems obtain cs m where n: "n = Dir cs" and m: "map_of cs y = Some m" and d: "is_dir m p"
    by (cases n) (auto simp add: is_dir_def split: option.splits)
  from Cons.IH [OF d] obtain m' where "store m (p @ [x]) v = Some m'" by blast
  with n m show ?case by simp
qed

lemma mkdirs_child:
  "is_dir n p \<Longrightarrow> \<not> exists n (p @ [x]) \<Longrightarrow> mkdirs n (p @ [x]) = store n (p @ [x]) (Dir [])"
proof (induction p arbitrary: n)
  case Nil
  then show ?case
    by (cases n) (auto simp add: is_dir_def exists_def split: option.splits)
next
  case (Cons y p)
  from Cons.prems obtain cs m where n: "n = Dir cs" and m: "map_of cs y = Some m" and d: "is_dir m p"
    by (cases n) (auto simp add: is_dir_def split: option.splits)
  from Cons.prems n m have "\<not> exists m (p @ [x])" by (simp add: exists_def)
  from Cons.IH [OF d this] n m show ?case by simp
qed

lemma mkdirs_frame:
  "mkdirs n p = Some n' \<Longrightarrow> \<not> prefix q p \<Longrightarrow> lookup n' q = lookup n q"
proof (induction n p arbitrary: n' q rule: mkdirs.induct)
  case (1 c p)
  then show ?case by simp
next
  case (2 cs)
  then show ?case by simp
next
  case (3 cs x xs)
  let ?c = "case map_of cs x of None \<Rightarrow> Dir [] | Some n \<Rightarrow> n"
  from "3.prems" obtain m' where m': "mkdirs ?c xs = Some m'" and n': "n' = Dir (AList.update x m' cs)"
    by (auto split: option.splits)
  from "3.prems" obtain y q' where q: "q = y # q'" by (cases q) auto
  show ?case
  proof (cases "y = x")
    case False
    then show ?thesis using n' q by (simp add: map_of_update)
  next
    case True
    from "3.prems" q True have np: "\<not> prefix q' xs" by simp
    then have q': "q' \<noteq> []" by auto
    from "3.IH" [OF m' np] have IH: "lookup m' q' = lookup ?c q'" .
    show ?thesis
    proof (cases "map_of cs x")
      case None
      with IH q' show ?thesis using n' q True by (cases q') (simp_all add: map_of_update)
    next
      case (Some c)
      with IH show ?thesis using n' q True by (simp add: map_of_update)
    qed
  qed
qed

lemma is_file_lookup: "is_file fs p \<longleftrightarrow> (\<exists>c. lookup fs p = Some (File c))"
  by (auto simp add: is_file_def split: option.splits node.splits)

lemma is_dir_lookup: "is_dir fs p \<longleftrightarrow> (\<exists>cs. lookup fs p = Some (Dir cs))"
  by (auto simp add: is_dir_def split: option.splits node.splits)

lemma map_of_delete: "map_of (AList.delete k al) = (map_of al)(k := None)"
  by (rule delete_conv')

lemma remove_lookup_other:
  "\<not> prefix p q \<Longrightarrow> \<not> prefix q p \<Longrightarrow> lookup (remove n p) q = lookup n q"
proof (induction n p arbitrary: q rule: remove.induct)
  case (1 n)
  then show ?case by simp
next
  case (2 c x xs)
  then show ?case by simp
next
  case (3 cs x xs)
  from "3.prems" obtain y q' where q: "q = y # q'" by (cases q) auto
  show ?case
  proof (cases "y = x")
    case False
    then show ?thesis using q
      by (auto simp add: map_of_update map_of_delete split: option.splits)
  next
    case True
    with "3.prems" q have np: "\<not> prefix xs q'" and nq: "\<not> prefix q' xs" by simp_all
    then have ne: "xs \<noteq> []" by auto
    show ?thesis
    proof (cases "map_of cs x")
      case None
      with ne show ?thesis by simp
    next
      case (Some m)
      from "3.IH" [OF ne Some np nq] Some ne q True show ?thesis
        by (simp add: map_of_update)
    qed
  qed
qed

lemma copy2_Inr:
  assumes "copy2 fs src dst = Inr fs'"
  shows "\<exists>c dst'. lookup fs src = Some (File c) \<and> (dst' = dst \<or> dst' = pjoin dst (path_name src))
           \<and> \<not> is_dir fs dst' \<and> store fs dst' (File c) = Some fs'"
  using assms
  by (auto simp add: copy2_def Let_def split: option.splits node.splits if_splits)

lemma copytree_result:
  assumes "copytree fs src dst = (fs', err)"
  shows "fs' = fs \<or> (\<exists>cs fs1. lookup fs src = Some (Dir cs) \<and> \<not> exists fs dst
           \<and> mkdirs fs dst = Some fs1 \<and> (fs' = fs1 \<or> store fs1 dst (Dir cs) = Some fs'))"
  using assms
  by (auto simp add: copytree_def mkdir_parents_def split: option.splits node.splits if_splits sum.splits)

lemma mkdir_parents_Inr:
  assumes "mkdir_parents fs p = Inr fs'"
  shows "\<not> exists fs p \<and> mkdirs fs p = Some fs'"
  using assms by (auto simp add: mkdir_parents_def split: option.splits if_splits)

lemma mkdir_parents_child:
  assumes "is_dir fs p" and "\<not> exists fs (p @ [x])"
  shows "\<exists>fs1. mkdir_parents fs (p @ [x]) = Inr fs1 \<and> store fs (p @ [x]) (Dir []) = Some fs1"
proof -
  from store_succeeds [OF assms(1), of x "Dir []"] obtain fs1
    where "store fs (p @ [x]) (Dir []) = Some fs1" by blast
  with mkdirs_child [OF assms] assms(2) show ?thesis
    by (simp add: mkdir_parents_def)
qed

lemma copy2_child:
  assumes "lookup fs src = Some (File c)" and "is_dir fs p" and "\<not> exists fs (p @ [x])"
  shows "\<exists>fs1. copy2 fs src (p @ [x]) = Inr fs1 \<and> store fs (p @ [x]) (File c) = Some fs1"
proof -
  from store_succeeds [OF assms(2), of x "File c"] obtain fs1
    where st: "store fs (p @ [x]) (File c) = Some fs1" by blast
  from assms(3) have nd: "\<not> is_dir fs (p @ [x])" by (auto simp add: exists_def is_dir_lookup)
  from assms(1,3) have ne: "p @ [x] \<noteq> src" by (auto simp add: exists_def)
  from st nd ne assms(1,2) show ?thesis
    by (simp add: copy2_def)
qed

lemma copytree_child:
  assumes "lookup fs src = Some (Dir cs)" and "is_dir fs p" and "\<not> exists fs (p @ [x])"
  shows "\<exists>fs1. store fs (p @ [x]) (Dir []) = Some fs1
           \<and> (if strict_prefix src p then copytree fs src (p @ [x]) = (fs1, Some RecursionError)
               else \<exists>fs2. store fs1 (p @ [x]) (Dir cs) = Some fs2
                      \<and> copytree fs src (p @ [x]) = (fs2, None))"
proof -
  from mkdir_parents_child [OF assms(2,3)] obtain fs1
    where mk: "mkdir_parents fs (p @ [x]) = Inr fs1" and st1: "store fs (p @ [x]) (Dir []) = Some fs1"
    by blast
  have "strict_prefix p (p @ [x])" by (simp add: strict_prefix_def)
  from store_prefix_is_dir [OF st1 this] have "is_dir fs1 p" by simp
  from store_succeeds [OF this, of x "Dir cs"] obtain fs2
    where st2: "store fs1 (p @ [x]) (Dir cs) = Some fs2" by blast
  from mk st1 st2 assms(1) show ?thesis by (simp add: copytree_def)
qed

lemma store_lookup_at: "store fs q v = Some fs' \<Longrightarrow> lookup fs' q = Some v"
  using store_lookup_below [of fs q v fs' "[]"] by simp

lemma store_sibling:
  assumes "store fs (p @ x # r) v = Some fs'" and "y \<noteq> x"
  shows "lookup fs' (p @ [y]) = lookup fs (p @ [y])"
  using assms(2) by (intro store_lookup_other [OF assms(1)]) auto

lemma store_keeps_file:
  assumes st: "store fs q v = Some fs'" and f: "lookup fs src = Some (File c)" and "\<not> prefix q src"
  shows "lookup fs' src = Some (File c)"
proof -
  have "\<not> prefix src q"
  proof
    assume "prefix src q"
    with assms(3) have "strict_prefix src q" by (auto simp add: strict_prefix_def)
    from store_prefix_is_dir [OF st this] f show False by (simp add: is_dir_lookup)
  qed
  from store_lookup_other [OF st assms(3) this] f show ?thesis by simp
qed

lemma fresh_not_prefix: "\<not> exists fs q \<Longrightarrow> lookup fs src = Some n \<Longrightarrow> \<not> prefix q src"
  using exists_prefix [of fs q] by (auto simp add: prefix_def exists_def)

subsection \<open>Enumerate\<close>

lemma child_le: "(root @ [a] \<le> root @ [b]) = (a \<le> (b::string))"
  by (induction root) (auto simp add: le_less)

lemma insort_child:
  "insort (root @ [n]) (map (\<lambda>n. root @ [n]) ns) = map (\<lambda>n. root @ [n]) (insort (n::string) ns)"
  by (induction ns) (simp_all add: child_le)

lemma sort_children:
  "sort (map (\<lambda>n. root @ [n]) ns) = map (\<lambda>n. root @ [n]) (sort (ns::string list))"
  by (induction ns) (simp_all add: insort_child)

lemma suffix_of_child: "suffix_of (p @ [n]) = suffix_of [n]"
  by (simp add: suffix_of_def path_name_def)

lemma iterdir_dir:
  "lookup fs p = Some (Dir cs) \<Longrightarrow> iterdir fs p = Inr (map (\<lambda>n. p @ [n]) (remdups (map fst cs)))"
  by (simp add: iterdir_def)

lemma missing_tip_not_empty_tip: "missing_tip xs \<noteq> EMPTY_TIP"
  by (simp add: missing_tip_def EMPTY_TIP_def)

lemma folder_item_status:
  assumes "is_dir fs folder"
  shows "\<exists>it. folder_item fs folder = Inr it
            \<and> fst it = path_name folder @ mark (folder_status fs folder)
            \<and> item_status it = folder_status fs folder"
proof -
  from assms obtain cs where cs: "lookup fs folder = Some (Dir cs)"
    by (auto simp add: is_dir_def split: option.splits node.splits)
  let ?children = "map (\<lambda>n. folder @ [n]) (remdups (map fst cs))"
  have it: "iterdir fs folder = Inr ?children" using cs by (rule iterdir_dir)
  have names: "child_names fs folder = fst ` set cs" using cs by (simp add: child_names_def)
  have any: "(?children \<noteq> []) = (child_names fs folder \<noteq> {})"
    using names by auto
  have ext: "list_ex (\<lambda>f. suffix_of f = e) (filter (is_file fs) ?children) = has_file_with fs folder e" for e
    unfolding has_file_with_def names
    by (auto simp add: list_ex_iff suffix_of_child)
  show ?thesis
    unfolding folder_item_def it folder_status_def
    by (simp only: sum.case Let_def ext any)
       (auto simp add: item_status_def missing_tip_not_empty_tip)
qed

lemma add_items_dirs:
  assumes "\<And>p. p \<in> set ps \<Longrightarrow> is_dir (disk s) p \<Longrightarrow> \<exists>it. folder_item (disk s) p = Inr it"
  shows "add_items s ps =
           (s\<lparr>model_list := model_list s @
                 map (\<lambda>p. projr (folder_item (disk s) p)) (filter (is_dir (disk s)) ps)\<rparr>, None)"
  using assms
proof (induction ps arbitrary: s)
  case Nil
  show ?case by simp
next
  case (Cons p ps)
  show ?case
  proof (cases "is_dir (disk s) p")
    case False
    then show ?thesis using Cons.IH [of s] Cons.prems by simp
  next
    case True
    with Cons.prems [of p] obtain it where it: "folder_item (disk s) p = Inr it" by auto
    let ?s = "s\<lparr>model_list := model_list s @ [it]\<rparr>"
    have "add_items ?s ps =
           (?s\<lparr>model_list := model_list ?s @
                 map (\<lambda>p. projr (folder_item (disk ?s) p)) (filter (is_dir (disk ?s)) ps)\<rparr>, None)"
      by (rule Cons.IH) (use Cons.prems in simp)
    then show ?thesis using True it by simp
  qed
qed

lemma filter_sort_subdirs:
  "filter P (sort (remdups xs)) = sorted_list_of_set {x \<in> set xs. P x}"
proof -
  have "sorted (filter P (sort (remdups xs)))" using sorted_filter [of "\<lambda>x. x" "sort (remdups xs)" P] by simp
  moreover have "distinct (filter P (sort (remdups xs)))" by simp
  moreover have "set (filter P (sort (remdups xs))) = {x \<in> set xs. P x}" by auto
  ultimately show ?thesis
    by (metis (no_types, lifting) finite_set distinct_sorted_list_of_set finite_Collect_conjI
        sorted_distinct_set_unique sorted_list_of_set.set_sorted_key_list_of_set
        sorted_list_of_set.sorted_sorted_key_list_of_set List.finite_set)
qed

lemma path_name_child: "path_name (p @ [n]) = n"
  by (simp add: path_name_def)

lemma load_models_dir:
  assumes "is_dir (disk s) (model_path s)"
  shows "load_models s =
      (s\<lparr>model_list := map (\<lambda>n. projr (folder_item (disk s) (model_path s @ [n])))
                            (subdir_names (disk s) (model_path s))\<rparr>, None)"
proof -
  let ?fs = "disk s" and ?root = "model_path s"
  from assms obtain cs where cs: "lookup ?fs ?root = Some (Dir cs)"
    by (auto simp add: is_dir_def split: option.splits node.splits)
  let ?s2 = "s\<lparr>model_list := []\<rparr>"
  let ?names = "filter (\<lambda>n. is_dir ?fs (?root @ [n])) (sort (remdups (map fst cs)))"
  let ?row = "\<lambda>p. projr (folder_item ?fs p)"
  have ex: "exists ?fs ?root" using cs by (simp add: exists_def)
  have folders: "iterdir ?fs ?root = Inr (map (\<lambda>n. ?root @ [n]) (remdups (map fst cs)))"
    using cs by (rule iterdir_dir)
  have items: "add_items ?s2 ps =
      (?s2\<lparr>model_list := model_list ?s2 @ map (\<lambda>p. projr (folder_item (disk ?s2) p))
           (filter (is_dir (disk ?s2)) ps)\<rparr>, None)" for ps
    by (rule add_items_dirs) (use folder_item_status in fastforce)
  have run: "load_models s =
      (s\<lparr>model_list := map ?row (map (\<lambda>n. ?root @ [n]) ?names)\<rparr>, None)"
    unfolding load_models_def
    by (simp add: Let_def ex folders sort_children items filter_map comp_def)
  have names: "?names = subdir_names ?fs ?root"
    unfolding subdir_names_def child_names_def cs
    using filter_sort_subdirs [of "\<lambda>n. is_dir ?fs (?root @ [n])" "map fst cs"]
    by simp
  from run names show ?thesis by (simp add: comp_def)
qed

lemma subdir_names_set:
  "set (subdir_names fs root) = {n \<in> child_names fs root. is_dir fs (root @ [n])}"
proof -
  have "finite (child_names fs root)"
    by (auto simp add: child_names_def split: option.splits node.splits)
  then show ?thesis by (simp add: subdir_names_def)
qed

lemma listed_row:
  assumes "n \<in> set (subdir_names fs root)"
  shows "fst (projr (folder_item fs (root @ [n]))) = n @ mark (folder_status fs (root @ [n]))
       \<and> item_status (projr (folder_item fs (root @ [n]))) = folder_status fs (root @ [n])"
proof -
  from assms have "is_dir fs (root @ [n])" by (simp add: subdir_names_set)
  from folder_item_status [OF this] show ?thesis by (auto simp add: path_name_child)
qed

lemma add_items_disk:
  "disk (fst (add_items s ps)) = disk s \<and> model_path (fst (add_items s ps)) = model_path s"
  by (induction s ps rule: add_items.induct) (auto split: sum.splits)

lemma load_models_disk:
  assumes "exists (disk s) (model_path s)"
  shows "disk (fst (load_models s)) = disk s"
  using assms add_items_disk
  by (auto simp add: load_models_def Let_def split: sum.splits)

text \<open>
  Claim C4.  When the model folder is a directory, \<^verbatim>\<open>load_models\<close> returns, leaves the
  file system as it is, and lists exactly the immediate subdirectories of the model
  folder in the order of their names; the row of each folder shows its name with the mark
  of its status, and that status is empty if and only if the folder has no child of any
  kind, otherwise complete if and only if a \<^verbatim>\<open>.pth\<close> file and a \<^verbatim>\<open>.index\<close> file are
  among its immediate file children, otherwise missing files (\<^const>\<open>folder_status\<close>).
\<close>

theorem load_models_lists_subdirectories:
  assumes "is_dir (disk s) (model_path s)"
  shows "snd (load_models s) = None
       \<and> disk (fst (load_models s)) = disk s
       \<and> map fst (model_list (fst (load_models s)))
           = map (\<lambda>n. n @ mark (folder_status (disk s) (model_path s @ [n])))
                 (subdir_names (disk s) (model_path s))
       \<and> map item_status (model_list (fst (load_models s)))
           = map (\<lambda>n. folder_status (disk s) (model_path s @ [n]))
                 (subdir_names (disk s) (model_path s))"
proof -
  let ?names = "subdir_names (disk s) (model_path s)"
  let ?row = "\<lambda>n. projr (folder_item (disk s) (model_path s @ [n]))"
  from load_models_dir [OF assms]
  have run: "load_models s = (s\<lparr>model_list := map ?row ?names\<rparr>, None)" .
  have texts: "map fst (map ?row ?names)
                 = map (\<lambda>n. n @ mark (folder_status (disk s) (model_path s @ [n]))) ?names"
    using listed_row [of _ "disk s" "model_path s"] by simp
  have statuses: "map item_status (map ?row ?names)
                 = map (\<lambda>n. folder_status (disk s) (model_path s @ [n])) ?names"
    using listed_row [of _ "disk s" "model_path s"] by simp
  from run texts statuses show ?thesis by simp
qed

theorem load_models_lists_subdirectories_witness:
  "snd (load_models example_installer) = None
   \<and> disk (fst (load_models example_installer)) = example_disk
   \<and> map fst (model_list (fst (load_models example_installer)))
       = [''a'', ''b'' @ EMPTY_MARK, ''c'' @ WARNING_MARK]
   \<and> map item_status (model_list (fst (load_models example_installer)))
       = [Complete, Empty, Missing_files]"
proof -
  have root: "is_dir (disk example_installer) (model_path example_installer)"
    by (simp add: example_installer_def example_disk_def is_dir_def)
  have names: "subdir_names example_disk [''models''] = [''a'', ''b'', ''c'']"
    unfolding example_disk_def by code_simp
  have st: "folder_status example_disk [''models'', ''a''] = Complete"
    "folder_status example_disk [''models'', ''b''] = Empty"
    "folder_status example_disk [''models'', ''c''] = Missing_files"
    unfolding example_disk_def by code_simp+
  from load_models_lists_subdirectories [OF root] names st
  show ?thesis by (simp add: example_installer_def)
qed




subsection \<open>Import: the destination\<close>

lemma next_free_stops: "\<not> exists fs dest \<Longrightarrow> next_free fs root model_name dest counter = dest"
  by (simp add: next_free.simps)

lemma next_free_numbered:
  "exists fs dest \<Longrightarrow>
   \<exists>k\<ge>counter. next_free fs root model_name dest counter = numbered root model_name k
      \<and> \<not> exists fs (numbered root model_name k)
      \<and> (\<forall>j. counter \<le> j \<and> j < k \<longrightarrow> exists fs (numbered root model_name j))"
proof (induction fs root model_name dest counter rule: next_free.induct)
  case (1 fs root model_name dest counter)
  let ?next = "numbered root model_name counter"
  from "1.prems" have step: "next_free fs root model_name dest counter
      = next_free fs root model_name ?next (Suc counter)"
    by (simp add: next_free.simps [of fs root model_name dest counter])
  show ?case
  proof (cases "exists fs ?next")
    case False
    then have "next_free fs root model_name ?next (Suc counter) = ?next"
      by (rule next_free_stops)
    with step False show ?thesis by auto
  next
    case True
    from "1.IH" [OF "1.prems" True] obtain k where k: "Suc counter \<le> k"
      and res: "next_free fs root model_name ?next (Suc counter) = numbered root model_name k"
      and free: "\<not> exists fs (numbered root model_name k)"
      and taken: "\<forall>j. Suc counter \<le> j \<and> j < k \<longrightarrow> exists fs (numbered root model_name j)"
      by blast
    have "exists fs (numbered root model_name j)" if "counter \<le> j" "j < k" for j
    proof (cases "j = counter")
      case True
      with \<open>exists fs ?next\<close> show ?thesis by simp
    next
      case False
      with that taken show ?thesis by simp
    qed
    with k res free step show ?thesis
      by (intro exI [of _ k]) auto
  qed
qed

lemma next_free_fresh: "\<not> exists fs (next_free fs root model_name dest counter)"
  using next_free_numbered [of fs dest counter root model_name] next_free_stops [of fs dest root model_name counter]
  by (cases "exists fs dest") auto

lemma pjoin_cases: "pjoin p x = p \<or> pjoin p x = p @ [x]"
  by (simp add: pjoin_def)

lemma next_free_shape:
  "next_free fs root model_name (pjoin root model_name) counter = root
   \<or> (\<exists>x. next_free fs root model_name (pjoin root model_name) counter = root @ [x])"
  using next_free_numbered [of fs "pjoin root model_name" counter root model_name]
    next_free_stops [of fs "pjoin root model_name" root model_name counter]
    pjoin_cases [of root model_name]
  by (cases "exists fs (pjoin root model_name)") (auto simp add: numbered_child)

lemma next_free_candidate:
  assumes taken: "\<forall>j<k. exists fs (candidate root model_name j)"
    and free: "\<not> exists fs (candidate root model_name k)"
  shows "next_free fs root model_name (pjoin root model_name) 1 = candidate root model_name k"
proof (cases "k = 0")
  case True
  with free show ?thesis by (simp add: candidate_def next_free_stops)
next
  case False
  with taken have "exists fs (pjoin root model_name)" by (auto simp add: candidate_def)
  from next_free_numbered [OF this, of 1 root model_name] obtain k' where k': "1 \<le> k'"
    and res: "next_free fs root model_name (pjoin root model_name) 1 = numbered root model_name k'"
    and free': "\<not> exists fs (numbered root model_name k')"
    and taken': "\<forall>j. 1 \<le> j \<and> j < k' \<longrightarrow> exists fs (numbered root model_name j)"
    by blast
  have "\<not> k' < k" using taken free' k' by (auto simp add: candidate_def)
  moreover have "\<not> k < k'" using taken' free False by (auto simp add: candidate_def)
  ultimately have "k' = k" by simp
  with res False show ?thesis by (simp add: candidate_def)
qed

lemma first_free_candidate_exists:
  "\<exists>k. (\<forall>j<k. exists fs (candidate root model_name j)) \<and> \<not> exists fs (candidate root model_name k)"
proof (cases "exists fs (pjoin root model_name)")
  case False
  then show ?thesis by (intro exI [of _ 0]) (simp add: candidate_def)
next
  case True
  from next_free_numbered [OF this, of 1 root model_name] obtain k where "1 \<le> k"
    and "\<not> exists fs (numbered root model_name k)"
    and "\<forall>j. 1 \<le> j \<and> j < k \<longrightarrow> exists fs (numbered root model_name j)"
    by blast
  with True show ?thesis
    by (intro exI [of _ k]) (auto simp add: candidate_def)
qed

lemma candidate_child:
  assumes "\<not> exists fs (candidate root model_name k)" and "exists fs root"
  shows "candidate root model_name k
           = root @ [if k = 0 then model_name else model_name @ ''_'' @ str_nat k]"
  using assms by (cases "k = 0") (auto simp add: candidate_def numbered_child pjoin_def)

lemma suffix_proper_name:
  assumes "suffix_of p \<noteq> []"
  shows "path_name p \<noteq> [] \<and> path_name p \<noteq> ''.''"
  using assms
  by (auto simp add: suffix_of_def Let_def split: option.splits if_splits)

lemma pjoin_below: "\<exists>r. pjoin p x = p @ r"
  by (simp add: pjoin_def)

lemma filter_single: "filter P xs = [x] \<Longrightarrow> P x"
proof -
  assume "filter P xs = [x]"
  then have "x \<in> set (filter P xs)" by simp
  then show "P x" by simp
qed

subsection \<open>Import: what it leaves as it was\<close>

text \<open>
  An import keeps a path when the node there is the same afterwards; it keeps every
  regular file, and every directory that is not the model folder or above it.  A write
  at a path is harmless for what existed before when nothing that existed lies at or
  below the path, and only prefixes of the model folder lie above it.
\<close>

definition keeps :: "path \<Rightarrow> node \<Rightarrow> node \<Rightarrow> bool" where
  "keeps root fs fs' \<longleftrightarrow>
     (\<forall>p n. lookup fs p = Some n \<and> (is_file fs p \<or> \<not> prefix p root) \<longrightarrow> lookup fs' p = Some n)"

definition untouched :: "path \<Rightarrow> node \<Rightarrow> path \<Rightarrow> bool" where
  "untouched root fs q \<longleftrightarrow> (\<forall>p. exists fs p \<longrightarrow> \<not> prefix q p \<and> (prefix p q \<longrightarrow> prefix p root))"

lemma keeps_refl: "keeps root fs fs"
  by (simp add: keeps_def)

lemma keeps_trans:
  assumes "keeps root fs fs1" and "keeps root fs1 fs2"
  shows "keeps root fs fs2"
  unfolding keeps_def
proof (intro allI impI)
  fix p n
  assume a: "lookup fs p = Some n \<and> (is_file fs p \<or> \<not> prefix p root)"
  with assms(1) have l1: "lookup fs1 p = Some n" by (auto simp add: keeps_def)
  from a l1 have "is_file fs1 p \<or> \<not> prefix p root" by (auto simp add: is_file_lookup)
  with l1 assms(2) show "lookup fs2 p = Some n" by (auto simp add: keeps_def)
qed

lemma untouched_below:
  assumes "\<not> exists fs dest" and "dest = root \<or> dest = root @ [x]"
  shows "untouched root fs (dest @ r)"
  unfolding untouched_def
proof (intro allI impI conjI)
  fix p
  assume p: "exists fs p"
  show np: "\<not> prefix (dest @ r) p"
  proof
    assume "prefix (dest @ r) p"
    then obtain t where "p = dest @ (r @ t)" by (auto simp add: prefix_def)
    with p exists_prefix [of fs dest "r @ t"] assms(1) show False by simp
  qed
  assume "prefix p (dest @ r)"
  then have "prefix p dest \<or> prefix dest p" by (metis prefix_append prefix_order.dual_order.trans prefix_same_cases prefixI)
  moreover have "\<not> prefix dest p"
  proof
    assume "prefix dest p"
    then obtain t where "p = dest @ t" by (auto simp add: prefix_def)
    with p exists_prefix [of fs dest t] assms(1) show False by simp
  qed
  ultimately have "prefix p dest" and "p \<noteq> dest" by auto
  with assms(2) show "prefix p root" by auto
qed

lemma store_keeps:
  assumes k: "keeps root fs fs1" and st: "store fs1 q v = Some fs2" and u: "untouched root fs q"
  shows "keeps root fs fs2"
  unfolding keeps_def
proof (intro allI impI)
  fix p n
  assume a: "lookup fs p = Some n \<and> (is_file fs p \<or> \<not> prefix p root)"
  with k have l1: "lookup fs1 p = Some n" by (auto simp add: keeps_def)
  from a have ex: "exists fs p" by (simp add: exists_def)
  with u have nq: "\<not> prefix q p" and up: "prefix p q \<longrightarrow> prefix p root" by (auto simp add: untouched_def)
  have "\<not> prefix p q"
  proof
    assume pq: "prefix p q"
    with nq have sp: "strict_prefix p q" by (auto simp add: strict_prefix_def)
    from store_prefix_is_dir [OF st sp] have "is_dir fs1 p" by simp
    with l1 have "\<not> is_file fs p" using a by (auto simp add: is_dir_lookup is_file_lookup)
    with a pq up show False by simp
  qed
  from store_lookup_other [OF st nq this] l1 show "lookup fs2 p = Some n" by simp
qed

lemma mkdirs_keeps:
  assumes k: "keeps root fs fs1" and mk: "mkdirs fs1 q = Some fs2" and u: "untouched root fs q"
  shows "keeps root fs fs2"
  unfolding keeps_def
proof (intro allI impI)
  fix p n
  assume a: "lookup fs p = Some n \<and> (is_file fs p \<or> \<not> prefix p root)"
  with k have l1: "lookup fs1 p = Some n" by (auto simp add: keeps_def)
  from a have ex: "exists fs p" by (simp add: exists_def)
  with u have up: "prefix p q \<longrightarrow> prefix p root" by (auto simp add: untouched_def)
  have "\<not> prefix p q"
  proof
    assume pq: "prefix p q"
    from mkdirs_no_file_on_path [OF mk pq] l1 a have "\<not> is_file fs p"
      by (auto simp add: is_file_lookup)
    with a pq up show False by simp
  qed
  from mkdirs_frame [OF mk this] l1 show "lookup fs2 p = Some n" by simp
qed

lemma dest_untouched:
  "untouched (model_path s) (disk s)
     (next_free (disk s) (model_path s) model_name (pjoin (model_path s) model_name) 1 @ r)"
proof -
  let ?dest = "next_free (disk s) (model_path s) model_name (pjoin (model_path s) model_name) 1"
  have fresh: "\<not> exists (disk s) ?dest"
    by (rule next_free_fresh)
  from next_free_shape [of "disk s" "model_path s" model_name 1]
  obtain x where "?dest = model_path s \<or> ?dest = model_path s @ [x]"
    by auto
  with fresh show ?thesis by (rule untouched_below)
qed

lemma copy2_keeps:
  assumes k: "keeps root fs fs1" and c: "copy2 fs1 src (dest @ r) = Inr fs2"
    and u: "\<And>r. untouched root fs (dest @ r)"
  shows "keeps root fs fs2"
proof -
  from copy2_Inr [OF c] obtain c' dst' where
    dst': "dst' = dest @ r \<or> dst' = pjoin (dest @ r) (path_name src)"
    and st: "store fs1 dst' (File c') = Some fs2"
    by blast
  from dst' pjoin_below [of "dest @ r" "path_name src"] obtain r' where "dst' = dest @ r'"
    by auto
  with u [of r'] have "untouched root fs dst'" by simp
  with k st show ?thesis by (rule store_keeps)
qed

lemma copytree_keeps:
  assumes k: "keeps root fs fs1" and c: "copytree fs1 src dest = (fs2, err)"
    and u: "\<And>r. untouched root fs (dest @ r)"
  shows "keeps root fs fs2"
proof -
  from u [of "[]"] have ud: "untouched root fs dest" by simp
  from copytree_result [OF c] consider "fs2 = fs1"
    | cs fs' where "mkdirs fs1 dest = Some fs'" "fs2 = fs' \<or> store fs' dest (Dir cs) = Some fs2"
    by blast
  then show ?thesis
  proof cases
    case 1
    with k show ?thesis by simp
  next
    case 2
    from mkdirs_keeps [OF k 2(1) ud] have k': "keeps root fs fs'" .
    from 2(2) show ?thesis
    proof
      assume "fs2 = fs'"
      with k' show ?thesis by simp
    next
      assume "store fs' dest (Dir cs) = Some fs2"
      from store_keeps [OF k' this ud] show ?thesis .
    qed
  qed
qed

lemma mkdir_parents_keeps:
  assumes k: "keeps root fs fs1" and c: "mkdir_parents fs1 dest = Inr fs2"
    and u: "\<And>r. untouched root fs (dest @ r)"
  shows "keeps root fs fs2"
proof -
  from mkdir_parents_Inr [OF c] have mk: "mkdirs fs1 dest = Some fs2" by simp
  from u [of "[]"] have ud: "untouched root fs dest" by simp
  from mkdirs_keeps [OF k mk ud] show ?thesis .
qed

lemma handle_dropped_path_keeps:
  "keeps (model_path s) (disk s) (disk (fst (handle_dropped_path s source)))
   \<and> model_path (fst (handle_dropped_path s source)) = model_path s"
proof -
  let ?root = "model_path s" and ?fs = "disk s"
  define model_name where "model_name = (if is_file ?fs source then stem source else path_name source)"
  define dest where "dest = next_free ?fs ?root model_name (pjoin ?root model_name) 1"
  have u: "untouched ?root ?fs (dest @ r)" for r
    unfolding dest_def by (rule dest_untouched)
  note k0 = keeps_refl [of ?root ?fs]
  show ?thesis
  proof (cases "exists ?fs source")
    case False
    then show ?thesis by (simp add: handle_dropped_path_def keeps_refl)
  next
    case ex: True
    show ?thesis
    proof (cases "is_file ?fs source \<and> suffix_of source = ''.pth''")
      case pth: True
      then have mn: "model_name = stem source" by (simp add: model_name_def)
      show ?thesis
      proof (cases "mkdir_parents ?fs dest")
        case (Inl e)
        with ex pth mn show ?thesis
          by (simp add: handle_dropped_path_def Let_def dest_def keeps_refl)
      next
        case (Inr fs1)
        from mkdir_parents_keeps [OF k0 Inr u] have k1: "keeps ?root ?fs fs1" .
        from pjoin_below [of dest "path_name source"] obtain r
          where r: "pjoin dest (path_name source) = dest @ r" by blast
        show ?thesis
        proof (cases "copy2 fs1 source (pjoin dest (path_name source))")
          case (Inl e)
          with ex pth mn Inr k1 show ?thesis
            by (simp add: handle_dropped_path_def Let_def dest_def)
        next
          case c: (Inr fs2)
          then have "copy2 fs1 source (dest @ r) = Inr fs2" by (simp add: r)
          from copy2_keeps [OF k1 this u] have "keeps ?root ?fs fs2" .
          with ex pth mn Inr c show ?thesis
            by (simp add: handle_dropped_path_def Let_def dest_def)
        qed
      qed
    next
      case other: False
      show ?thesis
      proof (cases "is_file ?fs source")
        case isfile: True
        then have mn: "model_name = stem source" by (simp add: model_name_def)
        show ?thesis
        proof (cases "copy2 ?fs source dest")
          case (Inl e)
          with ex other isfile mn show ?thesis
            by (simp add: handle_dropped_path_def Let_def dest_def keeps_refl)
        next
          case c: (Inr fs1)
          then have "copy2 ?fs source (dest @ []) = Inr fs1" by simp
          from copy2_keeps [OF k0 this u] have "keeps ?root ?fs fs1" .
          with ex other isfile mn c show ?thesis
            by (simp add: handle_dropped_path_def Let_def dest_def)
        qed
      next
        case isdir: False
        then have mn: "model_name = path_name source" by (simp add: model_name_def)
        obtain fs1 err where c: "copytree ?fs source dest = (fs1, err)"
          by (cases "copytree ?fs source dest")
        from copytree_keeps [OF k0 c u] have "keeps ?root ?fs fs1" .
        with ex other isdir mn c show ?thesis
          by (cases err) (simp_all add: handle_dropped_path_def Let_def dest_def)
      qed
    qed
  qed
qed

lemma handle_dropped_pair_keeps:
  "keeps (model_path s) (disk s) (disk (fst (handle_dropped_pair s pth_file index_file)))
   \<and> model_path (fst (handle_dropped_pair s pth_file index_file)) = model_path s"
proof -
  let ?root = "model_path s" and ?fs = "disk s"
  define dest where "dest = next_free ?fs ?root (stem pth_file) (pjoin ?root (stem pth_file)) 1"
  have u: "untouched ?root ?fs (dest @ r)" for r
    unfolding dest_def by (rule dest_untouched)
  note k0 = keeps_refl [of ?root ?fs]
  show ?thesis
  proof (cases "mkdir_parents ?fs dest")
    case (Inl e)
    then show ?thesis
      by (simp add: handle_dropped_pair_def Let_def dest_def keeps_refl)
  next
    case (Inr fs1)
    from mkdir_parents_keeps [OF k0 Inr u] have k1: "keeps ?root ?fs fs1" .
    from pjoin_below [of dest "path_name pth_file"] obtain r
      where r: "pjoin dest (path_name pth_file) = dest @ r" by blast
    from pjoin_below [of dest "path_name index_file"] obtain r'
      where r': "pjoin dest (path_name index_file) = dest @ r'" by blast
    show ?thesis
    proof (cases "copy2 fs1 pth_file (pjoin dest (path_name pth_file))")
      case (Inl e)
      with Inr k1 show ?thesis
        by (simp add: handle_dropped_pair_def Let_def dest_def)
    next
      case c: (Inr fs2)
      then have "copy2 fs1 pth_file (dest @ r) = Inr fs2" by (simp add: r)
      from copy2_keeps [OF k1 this u] have k2: "keeps ?root ?fs fs2" .
      show ?thesis
      proof (cases "copy2 fs2 index_file (pjoin dest (path_name index_file))")
        case (Inl e)
        with Inr c k2 show ?thesis
          by (simp add: handle_dropped_pair_def Let_def dest_def)
      next
        case c': (Inr fs3)
        then have "copy2 fs2 index_file (dest @ r') = Inr fs3" by (simp add: r')
        from copy2_keeps [OF k2 this u] have "keeps ?root ?fs fs3" .
        with Inr c c' show ?thesis
          by (simp add: handle_dropped_pair_def Let_def dest_def)
      qed
    qed
  qed
qed

lemma handle_each_keeps:
  "keeps (model_path s) (disk s) (disk (fst (handle_each s files)))
   \<and> model_path (fst (handle_each s files)) = model_path s"
proof (induction files arbitrary: s)
  case Nil
  show ?case by (simp add: keeps_refl)
next
  case (Cons f files)
  obtain s1 shown1 where one: "handle_dropped_path s f = (s1, shown1)" by (cases "handle_dropped_path s f")
  obtain s2 shown2 where rest: "handle_each s1 files = (s2, shown2)" by (cases "handle_each s1 files")
  from handle_dropped_path_keeps [of s f] one
  have k1: "keeps (model_path s) (disk s) (disk s1)" and r1: "model_path s1 = model_path s" by simp_all
  from Cons.IH [of s1] rest r1
  have k2: "keeps (model_path s) (disk s1) (disk s2)" and r2: "model_path s2 = model_path s" by simp_all
  from keeps_trans [OF k1 k2] r2 one rest show ?case by simp
qed

text \<open>
  Claim C8, as the code has it.  An import (one item, a directory, a pair or a batch;
  with or without an error reported) only copies: every path that held a regular file
  holds the same file afterwards, and every path that held a directory other than the
  model folder and the directories above it holds the same directory afterwards.  So
  every source of that kind still exists with its contents.
\<close>

theorem import_keeps_sources:
  assumes "lookup (disk s) p = Some n"
    and "is_file (disk s) p \<or> \<not> prefix p (model_path s)"
  shows "lookup (disk (fst (handle_dropped_item s path))) p = Some n"
proof -
  have "keeps (model_path s) (disk s) (disk (fst (handle_dropped_item s path)))"
  proof (cases path)
    case (One source)
    then show ?thesis using handle_dropped_path_keeps [of s source]
      by (simp add: handle_dropped_item_def)
  next
    case (Many files)
    then show ?thesis
      using handle_each_keeps [of s files]
        handle_dropped_pair_keeps [of s "hd (filter (\<lambda>f. suffix_of f = ''.pth'') files)"
          "hd (filter (\<lambda>f. suffix_of f = ''.index'') files)"]
      by (simp add: handle_dropped_item_def Let_def)
  qed
  with assms show ?thesis by (auto simp add: keeps_def)
qed

theorem import_keeps_sources_witness:
  "lookup (disk (fst (handle_dropped_item fresh_installer
       (Many [[''src'', ''voiceA.pth''], [''src'', ''voiceA.index''], [''src'', ''extra.txt'']]))))
     [''src'', ''voiceA.pth''] = Some (File ''weights'')
   \<and> lookup (disk (fst (handle_dropped_item fresh_installer (One [''src'']))))
       [''src'']
       = Some (Dir [(''voiceA.pth'', File ''weights''), (''voiceA.index'', File ''index''),
                    (''extra.txt'', File ''text'')])"
proof -
  have src_file: "lookup (disk fresh_installer) [''src'', ''voiceA.pth''] = Some (File ''weights'')"
    "is_file (disk fresh_installer) [''src'', ''voiceA.pth'']
     \<or> \<not> prefix [''src'', ''voiceA.pth''] (model_path fresh_installer)"
    by code_simp+
  have folder: "lookup (disk fresh_installer) [''src'']
       = Some (Dir [(''voiceA.pth'', File ''weights''), (''voiceA.index'', File ''index''),
                    (''extra.txt'', File ''text'')])"
    by code_simp
  have off: "is_file (disk fresh_installer) [''src'']
     \<or> \<not> prefix [''src''] (model_path fresh_installer)"
    by (simp add: fresh_installer_def)
  from import_keeps_sources [OF src_file] import_keeps_sources [OF folder off]
  show ?thesis by simp
qed

text \<open>
  Claim C8 as stated fails for a source that is the model folder itself (or a directory
  above it): the copy lands inside the source, whose contents are then not the original
  ones.
\<close>

theorem import_changes_a_source_above_the_root:
  "lookup (disk \<lparr>disk = Dir [(''models'', Dir [(''a'', Dir [])])], model_path = [''models''],
                  model_list = []\<rparr>) [''models'']
     = Some (Dir [(''a'', Dir [])])
   \<and> lookup (disk (fst (handle_dropped_item
         \<lparr>disk = Dir [(''models'', Dir [(''a'', Dir [])])], model_path = [''models''],
          model_list = []\<rparr>
         (One [''models'']))))
       [''models'']
     = Some (Dir [(''a'', Dir []), (''models'', Dir [(''a'', Dir [])])])"
  by code_simp

subsection \<open>Import: what each branch writes\<close>

lemma run_pth:
  assumes root: "is_dir (disk s) (model_path s)"
    and src: "lookup (disk s) source = Some (File c)" and pth: "suffix_of source = ''.pth''"
    and dest: "next_free (disk s) (model_path s) (stem source) (pjoin (model_path s) (stem source)) 1
                 = model_path s @ [x]"
  shows "\<exists>fs1 fs2. store (disk s) (model_path s @ [x]) (Dir []) = Some fs1
           \<and> store fs1 (model_path s @ [x, path_name source]) (File c) = Some fs2
           \<and> handle_dropped_path s source = (s\<lparr>disk := fs2\<rparr>, [])"
proof -
  let ?fs = "disk s" and ?dest = "model_path s @ [x]" and ?nm = "path_name source"
  from dest next_free_fresh [of ?fs "model_path s" "stem source" "pjoin (model_path s) (stem source)" 1]
  have fresh: "\<not> exists ?fs ?dest" by simp
  from mkdir_parents_child [OF root fresh] obtain fs1
    where mk: "mkdir_parents ?fs ?dest = Inr fs1" and st1: "store ?fs ?dest (Dir []) = Some fs1"
    by blast
  from pth suffix_proper_name [of source] have nm: "pjoin ?dest ?nm = ?dest @ [?nm]"
    by (simp add: pjoin_def)
  from store_lookup_at [OF st1] have d1: "lookup fs1 ?dest = Some (Dir [])" .
  then have dir1: "is_dir fs1 ?dest" by (simp add: is_dir_lookup)
  from d1 lookup_append [of fs1 ?dest "[?nm]"]
  have fresh1: "\<not> exists fs1 (?dest @ [?nm])" by (simp add: exists_def)
  from store_keeps_file [OF st1 src fresh_not_prefix [OF fresh src]]
  have src1: "lookup fs1 source = Some (File c)" .
  from copy2_child [OF src1 dir1 fresh1] obtain fs2
    where cp: "copy2 fs1 source (?dest @ [?nm]) = Inr fs2"
      and st2: "store fs1 (?dest @ [?nm]) (File c) = Some fs2"
    by blast
  from src have "exists ?fs source" "is_file ?fs source" by (simp_all add: exists_def is_file_lookup)
  with pth dest mk nm cp have "handle_dropped_path s source = (s\<lparr>disk := fs2\<rparr>, [])"
    by (simp add: handle_dropped_path_def Let_def)
  with st1 st2 show ?thesis by simp
qed

lemma run_file:
  assumes root: "is_dir (disk s) (model_path s)"
    and src: "lookup (disk s) source = Some (File c)" and other: "suffix_of source \<noteq> ''.pth''"
    and dest: "next_free (disk s) (model_path s) (stem source) (pjoin (model_path s) (stem source)) 1
                 = model_path s @ [x]"
  shows "\<exists>fs1. store (disk s) (model_path s @ [x]) (File c) = Some fs1
           \<and> handle_dropped_path s source = (s\<lparr>disk := fs1\<rparr>, [])"
proof -
  let ?fs = "disk s" and ?dest = "model_path s @ [x]"
  from dest next_free_fresh [of ?fs "model_path s" "stem source" "pjoin (model_path s) (stem source)" 1]
  have fresh: "\<not> exists ?fs ?dest" by simp
  from copy2_child [OF src root fresh] obtain fs1
    where cp: "copy2 ?fs source ?dest = Inr fs1" and st: "store ?fs ?dest (File c) = Some fs1"
    by blast
  from src have "exists ?fs source" "is_file ?fs source" by (simp_all add: exists_def is_file_lookup)
  with other dest cp have "handle_dropped_path s source = (s\<lparr>disk := fs1\<rparr>, [])"
    by (simp add: handle_dropped_path_def Let_def)
  with st show ?thesis by simp
qed

lemma run_dir:
  assumes root: "is_dir (disk s) (model_path s)"
    and src: "lookup (disk s) source = Some (Dir cs)"
    and dest: "next_free (disk s) (model_path s) (path_name source)
                 (pjoin (model_path s) (path_name source)) 1 = model_path s @ [x]"
  shows "\<exists>fs1. store (disk s) (model_path s @ [x]) (Dir []) = Some fs1
           \<and> (if strict_prefix source (model_path s)
               then handle_dropped_path s source
                      = (s\<lparr>disk := fs1\<rparr>, [Critical ''Copy Error'' RecursionError])
               else \<exists>fs2. store fs1 (model_path s @ [x]) (Dir cs) = Some fs2
                      \<and> handle_dropped_path s source = (s\<lparr>disk := fs2\<rparr>, []))"
proof -
  let ?fs = "disk s" and ?dest = "model_path s @ [x]"
  from dest next_free_fresh [of ?fs "model_path s" "path_name source"
      "pjoin (model_path s) (path_name source)" 1]
  have fresh: "\<not> exists ?fs ?dest" by simp
  from src have here: "exists ?fs source" "\<not> is_file ?fs source"
    by (simp_all add: exists_def is_file_lookup)
  from copytree_child [OF src root fresh] obtain fs1
    where st1: "store ?fs ?dest (Dir []) = Some fs1"
      and cp: "if strict_prefix source (model_path s)
               then copytree ?fs source ?dest = (fs1, Some RecursionError)
               else \<exists>fs2. store fs1 ?dest (Dir cs) = Some fs2
                      \<and> copytree ?fs source ?dest = (fs2, None)"
    by blast
  show ?thesis
  proof (cases "strict_prefix source (model_path s)")
    case True
    with cp here dest have "handle_dropped_path s source
        = (s\<lparr>disk := fs1\<rparr>, [Critical ''Copy Error'' RecursionError])"
      by (simp add: handle_dropped_path_def Let_def)
    with st1 True show ?thesis by simp
  next
    case False
    with cp obtain fs2 where st2: "store fs1 ?dest (Dir cs) = Some fs2"
      and c: "copytree ?fs source ?dest = (fs2, None)"
      by auto
    from c here dest have "handle_dropped_path s source = (s\<lparr>disk := fs2\<rparr>, [])"
      by (simp add: handle_dropped_path_def Let_def)
    with st1 st2 False show ?thesis by simp
  qed
qed

lemma run_pair:
  assumes root: "is_dir (disk s) (model_path s)"
    and pth: "lookup (disk s) pth_file = Some (File w)" and pth_suffix: "suffix_of pth_file = ''.pth''"
    and index: "lookup (disk s) index_file = Some (File i)"
    and index_suffix: "suffix_of index_file = ''.index''"
    and dest: "next_free (disk s) (model_path s) (stem pth_file)
                 (pjoin (model_path s) (stem pth_file)) 1 = model_path s @ [x]"
  shows "\<exists>fs1 fs2 fs3. store (disk s) (model_path s @ [x]) (Dir []) = Some fs1
           \<and> store fs1 (model_path s @ [x, path_name pth_file]) (File w) = Some fs2
           \<and> store fs2 (model_path s @ [x, path_name index_file]) (File i) = Some fs3
           \<and> handle_dropped_pair s pth_file index_file = (s\<lparr>disk := fs3\<rparr>, [])"
proof -
  let ?fs = "disk s" and ?dest = "model_path s @ [x]"
  let ?pn = "path_name pth_file" and ?iname = "path_name index_file"
  from dest next_free_fresh [of ?fs "model_path s" "stem pth_file" "pjoin (model_path s) (stem pth_file)" 1]
  have fresh: "\<not> exists ?fs ?dest" by simp
  from mkdir_parents_child [OF root fresh] obtain fs1
    where mk: "mkdir_parents ?fs ?dest = Inr fs1" and st1: "store ?fs ?dest (Dir []) = Some fs1"
    by blast
  from pth_suffix suffix_proper_name [of pth_file] have pn: "pjoin ?dest ?pn = ?dest @ [?pn]"
    by (simp add: pjoin_def)
  from index_suffix suffix_proper_name [of index_file] have iname: "pjoin ?dest ?iname = ?dest @ [?iname]"
    by (simp add: pjoin_def)
  have differ: "?iname \<noteq> ?pn"
    using pth_suffix index_suffix by (auto simp add: suffix_of_def)
  from store_lookup_at [OF st1] have d1: "lookup fs1 ?dest = Some (Dir [])" .
  then have dir1: "is_dir fs1 ?dest" by (simp add: is_dir_lookup)
  have fresh1: "\<not> exists fs1 (?dest @ [n])" for n
    using d1 lookup_append [of fs1 ?dest "[n]"] by (simp add: exists_def)
  from store_keeps_file [OF st1 pth fresh_not_prefix [OF fresh pth]]
  have pth1: "lookup fs1 pth_file = Some (File w)" .
  from store_keeps_file [OF st1 index fresh_not_prefix [OF fresh index]]
  have index1: "lookup fs1 index_file = Some (File i)" .
  from copy2_child [OF pth1 dir1 fresh1] obtain fs2
    where cp2: "copy2 fs1 pth_file (?dest @ [?pn]) = Inr fs2"
      and st2: "store fs1 (?dest @ [?pn]) (File w) = Some fs2"
    by blast
  have "strict_prefix ?dest (?dest @ [?pn])" by (simp add: strict_prefix_def)
  from store_prefix_is_dir [OF st2 this] have dir2: "is_dir fs2 ?dest" by simp
  have "lookup fs2 (?dest @ [?iname]) = lookup fs1 (?dest @ [?iname])"
    using store_sibling [of fs1 ?dest ?pn "[]" "File w" fs2 ?iname] st2 differ by simp
  with fresh1 [of ?iname] have fresh2: "\<not> exists fs2 (?dest @ [?iname])" by (simp add: exists_def)
  have "\<not> prefix (?dest @ [?pn]) index_file"
    by (rule fresh_not_prefix [OF fresh1 index1])
  from store_keeps_file [OF st2 index1 this] have index2: "lookup fs2 index_file = Some (File i)" .
  from copy2_child [OF index2 dir2 fresh2] obtain fs3
    where cp3: "copy2 fs2 index_file (?dest @ [?iname]) = Inr fs3"
      and st3: "store fs2 (?dest @ [?iname]) (File i) = Some fs3"
    by blast
  from dest mk pn iname cp2 cp3
  have "handle_dropped_pair s pth_file index_file = (s\<lparr>disk := fs3\<rparr>, [])"
    by (simp add: handle_dropped_pair_def Let_def)
  with st1 st2 st3 show ?thesis by simp
qed

text \<open>
  Claim C2.  A batch with exactly one \<^verbatim>\<open>.pth\<close> item and exactly one \<^verbatim>\<open>.index\<close> item,
  both regular files, dropped on an installer whose model folder is a directory: the
  import reports nothing and creates one folder under the model folder, named by the
  first free candidate for the stem of the weights file (the stem itself when it is
  free, \<open>k = 0\<close>); that folder holds the two files under their own names, with the
  contents of the sources, and nothing else; every other child of the model folder is as
  it was.
\<close>

theorem pair_import_makes_one_folder:
  assumes root: "is_dir (disk s) (model_path s)"
    and one_pth: "filter (\<lambda>f. suffix_of f = ''.pth'') files = [pth_file]"
    and one_index: "filter (\<lambda>f. suffix_of f = ''.index'') files = [index_file]"
    and pth: "lookup (disk s) pth_file = Some (File w)"
    and index: "lookup (disk s) index_file = Some (File i)"
    and taken: "\<forall>j<k. exists (disk s) (candidate (model_path s) (stem pth_file) j)"
    and free: "\<not> exists (disk s) (candidate (model_path s) (stem pth_file) k)"
  shows "let s' = fst (handle_dropped_item s (Many files));
             folder = (if k = 0 then stem pth_file else stem pth_file @ ''_'' @ str_nat k);
             dest = model_path s @ [folder]
         in snd (handle_dropped_item s (Many files)) = []
          \<and> \<not> exists (disk s) dest
          \<and> is_dir (disk s') dest
          \<and> (\<forall>x. lookup (disk s') (dest @ [x]) =
                   (if x = path_name pth_file then Some (File w)
                    else if x = path_name index_file then Some (File i) else None))
          \<and> (\<forall>x. x \<noteq> folder \<longrightarrow>
                   lookup (disk s') (model_path s @ [x]) = lookup (disk s) (model_path s @ [x]))"
proof -
  let ?fs = "disk s" and ?root = "model_path s"
  define folder where "folder = (if k = 0 then stem pth_file else stem pth_file @ ''_'' @ str_nat k)"
  let ?dest = "?root @ [folder]"
  let ?pn = "path_name pth_file" and ?iname = "path_name index_file"
  from one_pth have ps: "suffix_of pth_file = ''.pth''" by (rule filter_single)
  from one_index have idx: "suffix_of index_file = ''.index''" by (rule filter_single)
  from root have "exists ?fs ?root" by (auto simp add: exists_def is_dir_lookup)
  from candidate_child [OF free this] have cand: "candidate ?root (stem pth_file) k = ?dest"
    by (simp add: folder_def)
  with next_free_candidate [OF taken free]
  have dest: "next_free ?fs ?root (stem pth_file) (pjoin ?root (stem pth_file)) 1 = ?dest" by simp
  from run_pair [OF root pth ps index idx dest] obtain fs1 fs2 fs3
    where st1: "store ?fs ?dest (Dir []) = Some fs1"
      and st2: "store fs1 (?root @ [folder, ?pn]) (File w) = Some fs2"
      and st3: "store fs2 (?root @ [folder, ?iname]) (File i) = Some fs3"
      and run: "handle_dropped_pair s pth_file index_file = (s\<lparr>disk := fs3\<rparr>, [])"
    by blast
  from one_pth one_index run
  have res: "handle_dropped_item s (Many files) = (s\<lparr>disk := fs3\<rparr>, [])"
    by (simp add: handle_dropped_item_def)
  have differ: "?iname \<noteq> ?pn" using ps idx by (auto simp add: suffix_of_def)
  from free cand have fresh: "\<not> exists ?fs ?dest" by simp
  have "strict_prefix ?dest (?root @ [folder, ?iname])" by (simp add: strict_prefix_def)
  from store_prefix_is_dir [OF st3 this] have dir3: "is_dir fs3 ?dest" by simp
  have inside: "lookup fs3 (?dest @ [x]) =
      (if x = ?pn then Some (File w) else if x = ?iname then Some (File i) else None)" for x
  proof -
    from store_lookup_at [OF st1] lookup_append [of fs1 ?dest "[x]"]
    have l1: "lookup fs1 (?root @ [folder, x]) = None" by simp
    from store_lookup_at [OF st2] have l2: "lookup fs2 (?root @ [folder, ?pn]) = Some (File w)" .
    from store_lookup_at [OF st3] have l3: "lookup fs3 (?root @ [folder, ?iname]) = Some (File i)" .
    have s2: "x \<noteq> ?pn \<Longrightarrow> lookup fs2 (?root @ [folder, x]) = lookup fs1 (?root @ [folder, x])"
      using store_sibling [of fs1 ?dest ?pn "[]" "File w" fs2 x] st2 by simp
    have s3: "x \<noteq> ?iname \<Longrightarrow> lookup fs3 (?root @ [folder, x]) = lookup fs2 (?root @ [folder, x])"
      using store_sibling [of fs2 ?dest ?iname "[]" "File i" fs3 x] st3 by simp
    from l1 l2 l3 s2 s3 differ show ?thesis by auto
  qed
  have outside: "lookup fs3 (?root @ [x]) = lookup ?fs (?root @ [x])" if "x \<noteq> folder" for x
    using store_sibling [OF st3 that] store_sibling [OF st2 that]
      store_sibling [of ?fs ?root folder "[]" "Dir []" fs1 x] st1 that by simp
  from res fresh dir3 inside outside show ?thesis
    by (simp add: Let_def folder_def [symmetric])
qed

theorem pair_import_makes_one_folder_witness:
  "snd (handle_dropped_item used_installer
          (Many [[''src'', ''voiceA.pth''], [''src'', ''voiceA.index'']])) = []
   \<and> is_dir (disk (fst (handle_dropped_item used_installer
          (Many [[''src'', ''voiceA.pth''], [''src'', ''voiceA.index'']])))) [''models'', ''voiceA_1'']
   \<and> lookup (disk (fst (handle_dropped_item used_installer
          (Many [[''src'', ''voiceA.pth''], [''src'', ''voiceA.index'']]))))
        [''models'', ''voiceA_1'', ''voiceA.pth''] = Some (File ''weights'')
   \<and> lookup (disk (fst (handle_dropped_item used_installer
          (Many [[''src'', ''voiceA.pth''], [''src'', ''voiceA.index'']]))))
        [''models'', ''voiceA_1'', ''voiceA.index''] = Some (File ''index'')
   \<and> lookup (disk (fst (handle_dropped_item used_installer
          (Many [[''src'', ''voiceA.pth''], [''src'', ''voiceA.index'']]))))
        [''models'', ''voiceA''] = Some (Dir [(''voiceA.pth'', File ''old'')])"
proof -
  let ?files = "[[''src'', ''voiceA.pth''], [''src'', ''voiceA.index'']]"
  have root: "is_dir (disk used_installer) (model_path used_installer)"
    by code_simp
  have one_pth: "filter (\<lambda>f. suffix_of f = ''.pth'') ?files = [[''src'', ''voiceA.pth'']]"
    by code_simp
  have one_index: "filter (\<lambda>f. suffix_of f = ''.index'') ?files = [[''src'', ''voiceA.index'']]"
    by code_simp
  have pth: "lookup (disk used_installer) [''src'', ''voiceA.pth''] = Some (File ''weights'')"
    by code_simp
  have index: "lookup (disk used_installer) [''src'', ''voiceA.index''] = Some (File ''index'')"
    by code_simp
  have "exists (disk used_installer)
          (candidate (model_path used_installer) (stem [''src'', ''voiceA.pth'']) 0)"
    by code_simp
  then have taken: "\<forall>j<1. exists (disk used_installer)
          (candidate (model_path used_installer) (stem [''src'', ''voiceA.pth'']) j)"
    by simp
  have free: "\<not> exists (disk used_installer)
          (candidate (model_path used_installer) (stem [''src'', ''voiceA.pth'']) 1)"
    by code_simp
  have names: "stem [''src'', ''voiceA.pth''] @ ''_'' @ str_nat 1 = ''voiceA_1''"
    "path_name [''src'', ''voiceA.pth''] = ''voiceA.pth''"
    "path_name [''src'', ''voiceA.index''] = ''voiceA.index''"
    "model_path used_installer = [''models'']"
    by code_simp+
  have before: "lookup (disk used_installer) [''models'', ''voiceA'']
                  = Some (Dir [(''voiceA.pth'', File ''old'')])"
    by code_simp
  note run = pair_import_makes_one_folder [OF root one_pth one_index pth index taken free,
      unfolded Let_def names]
  let ?disk = "disk (fst (handle_dropped_item used_installer (Many ?files)))"
  from run have shown: "snd (handle_dropped_item used_installer (Many ?files)) = []"
    and folder: "is_dir ?disk [''models'', ''voiceA_1'']"
    and inside: "\<And>x. lookup ?disk [''models'', ''voiceA_1'', x] =
       (if x = ''voiceA.pth'' then Some (File ''weights'')
        else if x = ''voiceA.index'' then Some (File ''index'') else None)"
    and outside: "\<And>x. x \<noteq> ''voiceA_1'' \<Longrightarrow>
       lookup ?disk [''models'', x] = lookup (disk used_installer) [''models'', x]"
    by simp_all
  from shown folder inside [of "''voiceA.pth''"] inside [of "''voiceA.index''"]
    outside [of "''voiceA''"] before
  show ?thesis by simp
qed

text \<open>
  Claim C5.  For an import (of one existing item, or of a pair of files) whose computed
  destination already exists under the model folder (\<open>k > 0\<close>): with \<open>k\<close> the first
  suffix whose name \<^verbatim>\<open>{model_name}_{k}\<close> is free on the file system, the suffixes
  \<open>1, ..., k - 1\<close> being taken, the destination of the import is the
  child \<^verbatim>\<open>{model_name}_{k}\<close> of the model folder, which did not exist and exists
  afterwards, and every other child of the model folder is as it was.
\<close>

theorem import_uses_first_free_suffix:
  assumes root: "is_dir (disk s) (model_path s)"
    and item: "(path = One source \<and> exists (disk s) source
                \<and> model_name = (if is_file (disk s) source then stem source else path_name source))
             \<or> (path = Many files
                \<and> filter (\<lambda>f. suffix_of f = ''.pth'') files = [pth_file]
                \<and> filter (\<lambda>f. suffix_of f = ''.index'') files = [index_file]
                \<and> is_file (disk s) pth_file \<and> is_file (disk s) index_file
                \<and> model_name = stem pth_file)"
    and collision: "0 < k"
    and taken: "\<forall>j<k. exists (disk s) (candidate (model_path s) model_name j)"
    and free: "\<not> exists (disk s) (candidate (model_path s) model_name k)"
  shows "\<not> exists (disk s) (model_path s @ [model_name @ ''_'' @ str_nat k])
       \<and> exists (disk (fst (handle_dropped_item s path)))
            (model_path s @ [model_name @ ''_'' @ str_nat k])
       \<and> (\<forall>x. x \<noteq> model_name @ ''_'' @ str_nat k \<longrightarrow>
             lookup (disk (fst (handle_dropped_item s path))) (model_path s @ [x])
               = lookup (disk s) (model_path s @ [x]))"
proof -
  let ?fs = "disk s" and ?root = "model_path s"
  let ?folder = "model_name @ ''_'' @ str_nat k"
  let ?dest = "?root @ [?folder]"
  from root have "exists ?fs ?root" by (auto simp add: exists_def is_dir_lookup)
  from candidate_child [OF free this] collision
  have cand: "candidate ?root model_name k = ?dest" by simp
  with next_free_candidate [OF taken free]
  have dest: "next_free ?fs ?root model_name (pjoin ?root model_name) 1 = ?dest" by simp
  from free cand have fresh: "\<not> exists ?fs ?dest" by simp
  have "\<exists>fs'. disk (fst (handle_dropped_item s path)) = fs'
          \<and> exists fs' ?dest
          \<and> (\<forall>x. x \<noteq> ?folder \<longrightarrow> lookup fs' (?root @ [x]) = lookup ?fs (?root @ [x]))"
  proof -
    from item consider
      (pth) c where "path = One source" "lookup ?fs source = Some (File c)"
        "suffix_of source = ''.pth''" "model_name = stem source"
    | (other) c where "path = One source" "lookup ?fs source = Some (File c)"
        "suffix_of source \<noteq> ''.pth''" "model_name = stem source"
    | (folder) cs where "path = One source" "lookup ?fs source = Some (Dir cs)"
        "model_name = path_name source"
    | (pair) w i where "path = Many files"
        "filter (\<lambda>f. suffix_of f = ''.pth'') files = [pth_file]"
        "filter (\<lambda>f. suffix_of f = ''.index'') files = [index_file]"
        "lookup ?fs pth_file = Some (File w)" "lookup ?fs index_file = Some (File i)"
        "model_name = stem pth_file"
    proof (cases "path = One source")
      case one: True
      with item have ex: "exists ?fs source"
        and mn: "model_name = (if is_file ?fs source then stem source else path_name source)"
        by auto
      from ex obtain n where n: "lookup ?fs source = Some n" by (auto simp add: exists_def)
      show ?thesis
      proof (cases n)
        case (File c)
        with n mn have "model_name = stem source" by (simp add: is_file_lookup)
        with one n File pth other show ?thesis by (cases "suffix_of source = ''.pth''") auto
      next
        case (Dir cs)
        with n mn have "model_name = path_name source" by (simp add: is_file_lookup)
        with one n Dir folder show ?thesis by auto
      qed
    next
      case False
      with item pair show ?thesis by (auto simp add: is_file_lookup)
    qed
    then show ?thesis
    proof cases
      case pth
      from run_pth [OF root pth(2,3)] dest pth(4) obtain fs1 fs2
        where st1: "store ?fs ?dest (Dir []) = Some fs1"
          and st2: "store fs1 (?root @ [?folder, path_name source]) (File c) = Some fs2"
          and run: "handle_dropped_path s source = (s\<lparr>disk := fs2\<rparr>, [])"
        by auto
      have "strict_prefix ?dest (?root @ [?folder, path_name source])"
        by (simp add: strict_prefix_def)
      from store_prefix_is_dir [OF st2 this] have "exists fs2 ?dest"
        by (auto simp add: exists_def is_dir_lookup)
      moreover have "lookup fs2 (?root @ [x]) = lookup ?fs (?root @ [x])" if "x \<noteq> ?folder" for x
        using store_sibling [OF st2 that] store_sibling [of ?fs ?root ?folder "[]" "Dir []" fs1 x]
          st1 that by simp
      ultimately show ?thesis using run pth(1) by (auto simp add: handle_dropped_item_def)
    next
      case other
      from run_file [OF root other(2,3)] dest other(4) obtain fs1
        where st1: "store ?fs ?dest (File c) = Some fs1"
          and run: "handle_dropped_path s source = (s\<lparr>disk := fs1\<rparr>, [])"
        by auto
      from store_lookup_at [OF st1] have "exists fs1 ?dest" by (simp add: exists_def)
      moreover have "lookup fs1 (?root @ [x]) = lookup ?fs (?root @ [x])" if "x \<noteq> ?folder" for x
        using store_sibling [of ?fs ?root ?folder "[]" "File c" fs1 x] st1 that by simp
      ultimately show ?thesis using run other(1) by (auto simp add: handle_dropped_item_def)
    next
      case folder
      from run_dir [OF root folder(2)] dest folder(3) obtain fs1
        where st1: "store ?fs ?dest (Dir []) = Some fs1"
          and run: "if strict_prefix source ?root
               then handle_dropped_path s source
                      = (s\<lparr>disk := fs1\<rparr>, [Critical ''Copy Error'' RecursionError])
               else \<exists>fs2. store fs1 ?dest (Dir cs) = Some fs2
                      \<and> handle_dropped_path s source = (s\<lparr>disk := fs2\<rparr>, [])"
        by auto
      have out1: "lookup fs1 (?root @ [x]) = lookup ?fs (?root @ [x])" if "x \<noteq> ?folder" for x
        using store_sibling [of ?fs ?root ?folder "[]" "Dir []" fs1 x] st1 that by simp
      show ?thesis
      proof (cases "strict_prefix source ?root")
        case True
        from store_lookup_at [OF st1] have "exists fs1 ?dest" by (simp add: exists_def)
        with True run out1 folder(1) show ?thesis by (auto simp add: handle_dropped_item_def)
      next
        case False
        with run obtain fs2 where st2: "store fs1 ?dest (Dir cs) = Some fs2"
          and res: "handle_dropped_path s source = (s\<lparr>disk := fs2\<rparr>, [])"
          by auto
        from store_lookup_at [OF st2] have "exists fs2 ?dest" by (simp add: exists_def)
        moreover have "lookup fs2 (?root @ [x]) = lookup ?fs (?root @ [x])" if "x \<noteq> ?folder" for x
          using store_sibling [of fs1 ?root ?folder "[]" "Dir cs" fs2 x] out1 st2 that by simp
        ultimately show ?thesis using res folder(1) by (auto simp add: handle_dropped_item_def)
      qed
    next
      case pair
      from pair(2) have ps: "suffix_of pth_file = ''.pth''" by (rule filter_single)
      from pair(3) have idx: "suffix_of index_file = ''.index''" by (rule filter_single)
      from run_pair [OF root pair(4) ps pair(5) idx] dest pair(6) obtain fs1 fs2 fs3
        where st1: "store ?fs ?dest (Dir []) = Some fs1"
          and st2: "store fs1 (?root @ [?folder, path_name pth_file]) (File w) = Some fs2"
          and st3: "store fs2 (?root @ [?folder, path_name index_file]) (File i) = Some fs3"
          and run: "handle_dropped_pair s pth_file index_file = (s\<lparr>disk := fs3\<rparr>, [])"
        by auto
      have "strict_prefix ?dest (?root @ [?folder, path_name index_file])"
        by (simp add: strict_prefix_def)
      from store_prefix_is_dir [OF st3 this] have "exists fs3 ?dest"
        by (auto simp add: exists_def is_dir_lookup)
      moreover have "lookup fs3 (?root @ [x]) = lookup ?fs (?root @ [x])" if "x \<noteq> ?folder" for x
        using store_sibling [OF st3 that] store_sibling [OF st2 that]
          store_sibling [of ?fs ?root ?folder "[]" "Dir []" fs1 x] st1 that by simp
      ultimately show ?thesis using run pair(1,2,3) by (auto simp add: handle_dropped_item_def)
    qed
  qed
  with fresh show ?thesis by auto
qed

text \<open>
  Importing \<^verbatim>\<open>voiceA.pth\<close> twice: the first import makes the folder \<^verbatim>\<open>voiceA\<close>, the
  second one \<^verbatim>\<open>voiceA_1\<close>.
\<close>

theorem import_uses_first_free_suffix_witness:
  "is_dir (disk (fst (handle_dropped_item fresh_installer (One [''src'', ''voiceA.pth'']))))
        [''models'', ''voiceA'']
   \<and> \<not> exists (disk (fst (handle_dropped_item fresh_installer (One [''src'', ''voiceA.pth'']))))
        [''models'', ''voiceA_1'']
   \<and> exists (disk (fst (handle_dropped_item
          (fst (handle_dropped_item fresh_installer (One [''src'', ''voiceA.pth''])))
          (One [''src'', ''voiceA.pth'']))))
        [''models'', ''voiceA_1'']
   \<and> lookup (disk (fst (handle_dropped_item
          (fst (handle_dropped_item fresh_installer (One [''src'', ''voiceA.pth''])))
          (One [''src'', ''voiceA.pth'']))))
        [''models'', ''voiceA'']
       = Some (Dir [(''voiceA.pth'', File ''weights'')])"
proof -
  let ?source = "[''src'', ''voiceA.pth'']"
  let ?once = "fst (handle_dropped_item fresh_installer (One ?source))"
  let ?twice = "fst (handle_dropped_item ?once (One ?source))"
  have root: "is_dir (disk ?once) (model_path ?once)"
    by code_simp
  have item: "(One ?source = One ?source \<and> exists (disk ?once) ?source
        \<and> ''voiceA'' = (if is_file (disk ?once) ?source then stem ?source else path_name ?source))
      \<or> (One ?source = Many [] \<and> filter (\<lambda>f. suffix_of f = ''.pth'') [] = [[]]
          \<and> filter (\<lambda>f. suffix_of f = ''.index'') [] = [[]]
          \<and> is_file (disk ?once) [] \<and> is_file (disk ?once) [] \<and> ''voiceA'' = stem [])"
    by code_simp
  have "exists (disk ?once) (candidate (model_path ?once) ''voiceA'' 0)"
    by code_simp
  then have taken: "\<forall>j<1. exists (disk ?once) (candidate (model_path ?once) ''voiceA'' j)"
    by simp
  have free: "\<not> exists (disk ?once) (candidate (model_path ?once) ''voiceA'' 1)"
    by code_simp
  have names: "''voiceA'' @ ''_'' @ str_nat 1 = ''voiceA_1''" "model_path ?once = [''models'']"
    by code_simp+
  have first: "lookup (disk ?once) [''models'', ''voiceA'']
                 = Some (Dir [(''voiceA.pth'', File ''weights'')])"
    by code_simp
  note run = import_uses_first_free_suffix [OF root item _ taken free, unfolded names]
  from run have fresh: "\<not> exists (disk ?once) [''models'', ''voiceA_1'']"
    and made: "exists (disk ?twice) [''models'', ''voiceA_1'']"
    and outside: "\<And>x. x \<noteq> ''voiceA_1'' \<Longrightarrow>
       lookup (disk ?twice) [''models'', x] = lookup (disk ?once) [''models'', x]"
    by simp_all
  from first have "is_dir (disk ?once) [''models'', ''voiceA'']" by (simp add: is_dir_def)
  with fresh made outside [of "''voiceA''"] first show ?thesis by simp
qed

lemma handle_each_foldl:
  "foldl (\<lambda>acc f. (fst (handle_dropped_item (fst acc) (One f)),
                    snd acc @ snd (handle_dropped_item (fst acc) (One f)))) (s, shown) files
   = (fst (handle_each s files), shown @ snd (handle_each s files))"
proof (induction files arbitrary: s shown)
  case Nil
  show ?case by simp
next
  case (Cons f files)
  obtain s1 shown1 where one: "handle_dropped_path s f = (s1, shown1)"
    by (cases "handle_dropped_path s f")
  obtain s2 shown2 where rest: "handle_each s1 files = (s2, shown2)"
    by (cases "handle_each s1 files")
  from one have single: "handle_dropped_item s (One f) = (s1, shown1)"
    by (simp add: handle_dropped_item_def)
  from Cons.IH [of s1 "shown @ shown1"] rest single one show ?case
    by simp
qed

text \<open>
  Claim C1, as the code has it.  A batch in which the number of \<^verbatim>\<open>.pth\<close> items is not
  one, or the number of \<^verbatim>\<open>.index\<close> items is not one, is imported item by item, in the
  order of the batch, each by the rule for one item on the state the items before it have
  left; the notices are those of the items, in that order.
\<close>

theorem batch_without_pair_imports_each_item:
  assumes "length (filter (\<lambda>f. suffix_of f = ''.pth'') files) \<noteq> 1
         \<or> length (filter (\<lambda>f. suffix_of f = ''.index'') files) \<noteq> 1"
  shows "handle_dropped_item s (Many files)
       = foldl (\<lambda>acc f. (fst (handle_dropped_item (fst acc) (One f)),
                          snd acc @ snd (handle_dropped_item (fst acc) (One f)))) (s, []) files"
proof -
  from assms have "handle_dropped_item s (Many files) = handle_each s files"
    by (auto simp add: handle_dropped_item_def Let_def)
  then show ?thesis by (simp add: handle_each_foldl)
qed

theorem batch_without_pair_imports_each_item_witness:
  "handle_dropped_item fresh_installer (Many [[''src'', ''voiceA.pth''], [''src'', ''extra.txt'']])
   = (fresh_installer\<lparr>disk := Dir [dropped_files,
         (''models'', Dir [(''voiceA'', Dir [(''voiceA.pth'', File ''weights'')]),
                           (''extra'', File ''text'')])]\<rparr>, [])"
proof -
  let ?files = "[[''src'', ''voiceA.pth''], [''src'', ''extra.txt'']]"
  have no_pair: "length (filter (\<lambda>f. suffix_of f = ''.pth'') ?files) \<noteq> 1
         \<or> length (filter (\<lambda>f. suffix_of f = ''.index'') ?files) \<noteq> 1"
    by code_simp
  have each: "foldl (\<lambda>acc f. (fst (handle_dropped_item (fst acc) (One f)),
                          snd acc @ snd (handle_dropped_item (fst acc) (One f))))
                (fresh_installer, []) ?files
      = (fresh_installer\<lparr>disk := Dir [dropped_files,
         (''models'', Dir [(''voiceA'', Dir [(''voiceA.pth'', File ''weights'')]),
                           (''extra'', File ''text'')])]\<rparr>, [])"
    by code_simp
  from batch_without_pair_imports_each_item [OF no_pair, of fresh_installer] each
  show ?thesis by simp
qed

text \<open>
  Claim C1 as stated fails: \<^verbatim>\<open>voiceA.pth\<close>, \<^verbatim>\<open>voiceA.index\<close> and \<^verbatim>\<open>extra.txt\<close>
  dropped together hold exactly one \<^verbatim>\<open>.pth\<close> and one \<^verbatim>\<open>.index\<close> item, so the code
  imports the pair into the one folder \<^verbatim>\<open>voiceA\<close> and nothing else, where the rule for
  one item applied to each of the three would leave three entries.
\<close>

theorem batch_with_pair_and_more_is_one_import:
  "lookup (disk (fst (handle_dropped_item fresh_installer
       (Many [[''src'', ''voiceA.pth''], [''src'', ''voiceA.index''], [''src'', ''extra.txt'']]))))
     [''models'']
   = Some (Dir [(''voiceA'', Dir [(''voiceA.pth'', File ''weights''),
                                  (''voiceA.index'', File ''index'')])])
   \<and> lookup (disk (fst (handle_each fresh_installer
       [[''src'', ''voiceA.pth''], [''src'', ''voiceA.index''], [''src'', ''extra.txt'']])))
     [''models'']
   = Some (Dir [(''voiceA'', Dir [(''voiceA.pth'', File ''weights'')]),
                (''voiceA_1'', File ''index''), (''extra'', File ''text'')])"
  by code_simp

text \<open>
  Claim C3 says that importing \<^verbatim>\<open>extra.txt\<close> creates a folder \<^verbatim>\<open>extra\<close> that holds the
  copy.  The code at that input: \<^verbatim>\<open>shutil.copy2(source, dest)\<close> with no \<^verbatim>\<open>mkdir\<close> before
  it writes the copy as the regular file \<^verbatim>\<open>extra\<close> of the model folder, and reports
  nothing; no folder is created.
\<close>

theorem other_file_import_makes_a_file:
  "handle_dropped_item fresh_installer (One [''src'', ''extra.txt''])
     = (fresh_installer\<lparr>disk := Dir [dropped_files, (''models'', Dir [(''extra'', File ''text'')])]\<rparr>, [])
   \<and> \<not> is_dir (disk (fst (handle_dropped_item fresh_installer (One [''src'', ''extra.txt'']))))
         [''models'', ''extra'']"
  by code_simp

subsection \<open>Rename\<close>

lemma split_slash_name: "CHR ''/'' \<notin> set s \<Longrightarrow> split_slash s = [s]"
  by (induction s) auto

text \<open>On a name without separator the two forms of \<^verbatim>\<open>/\<close> agree.\<close>

lemma joinpath_name: "CHR ''/'' \<notin> set s \<Longrightarrow> joinpath p s = pjoin p s"
  by (cases s) (auto simp add: joinpath_def pjoin_def path_parts_def split_slash_name)




text \<open>
  The exception of a rename is the one the system gives.  Beside the empty folder \<^verbatim>\<open>foo\<close>
  the second row of this listing is a folder that holds one text file; a new name below
  that file is not found to exist, and the rename fails with \<^verbatim>\<open>NotADirectoryError\<close>.
\<close>

lemma rename_below_a_file:
  "map fst (model_list (fst (load_models shadowed_installer)))
     = [''foo'' @ EMPTY_MARK, ''foo'' @ EMPTY_MARK @ WARNING_MARK]
   \<and> rename_model (fst (load_models shadowed_installer)) (Some 1)
        (''foo'' @ EMPTY_MARK @ ''/kept.txt/x'', True)
       = (fst (load_models shadowed_installer), [Critical ''Rename Error'' NotADirectoryError])"
  by code_simp

lemma rename_model_rejected_keeps_state:
  assumes "new_name = [] \<or> (\<exists>it. current_item s current = Some it \<and> new_name = fst it)
         \<or> path_exists (disk s) (joinpath (model_path s) new_name)"
  shows "fst (rename_model s current (new_name, ok)) = s"
  using assms
  by (auto simp add: rename_model_def Let_def split: option.splits)

text \<open>
  Claim C6 says that renaming an entry to its own current name reports no error.  The
  code at an empty folder \<^verbatim>\<open>foo\<close>: its row shows the name with the mark, \<^verbatim>\<open>rename_model\<close>
  compares the new name with that text, so the folder's own name \<^verbatim>\<open>foo\<close> passes as a new
  name, is found to exist, and the warning \<^verbatim>\<open>Rename Error\<close> is shown.  The file system
  is left as it was.
\<close>

theorem rename_to_own_name_reports_error:
  "model_list (fst (load_models marked_installer)) = [(''foo'' @ EMPTY_MARK, Some EMPTY_TIP)]
   \<and> is_dir (disk (fst (load_models marked_installer))) [''models'', ''foo'']
   \<and> rename_model (fst (load_models marked_installer)) (Some 0) (''foo'', True)
       = (fst (load_models marked_installer), [Warning ''Rename Error''])"
  by code_simp




end
